theory Spec2Isabelle
  imports Main "HOL-Library.Word" "HOL-Library.Sublist"
begin

section \<open>The handle based filesystem of filesystem.c\<close>

text \<open>
  A shallow embedding of \<^verbatim>\<open>src/filesystem.c\<close>.  The C globals (the search path list,
  the handle table \<^verbatim>\<open>fsh\<close>, the path cvars) and everything the C library keeps for
  the process (the disk, the open \<^verbatim>\<open>FILE\<close> objects, the opened archives) are one
  explicit value of type \<open>world\<close> that every function takes and returns.
  \<^verbatim>\<open>Com_Error\<close> does not return to its caller: a function that can reach it returns
  \<open>Inl\<close> of the error, together with the world as it stood at the call.
\<close>

subsection \<open>Data\<close>

type_synonym byte = "8 word"

text \<open>\<^verbatim>\<open>fileHandle_t\<close> is a C \<^verbatim>\<open>int\<close>.  Pointers are addresses, \<open>0\<close> being \<^verbatim>\<open>NULL\<close>.\<close>

type_synonym fileHandle_t = int
type_synonym ptr = nat

abbreviation (input) qtrue :: bool where "qtrue \<equiv> True"
abbreviation (input) qfalse :: bool where "qfalse \<equiv> False"

datatype errorParm_t = ERR_FATAL | ERR_DROP

text \<open>
  An error is a call of \<^verbatim>\<open>Com_Error\<close> (its level and its message text, format escapes
  and arguments left out), or the use of a \<^verbatim>\<open>NULL\<close> or dangling stream pointer by the
  C library, which C leaves undefined.
\<close>

datatype error = Com_Error errorParm_t string | Bad_Stream

datatype fsOrigin_t = FS_SEEK_CUR | FS_SEEK_END | FS_SEEK_SET | FS_SEEK_other int

text \<open>
  One slot of \<^verbatim>\<open>fsh\<close>.  \<^verbatim>\<open>handleFiles.file\<close> is a C union of a \<^verbatim>\<open>FILE *\<close> (member
  \<^verbatim>\<open>o\<close>) and an \<^verbatim>\<open>unzFile\<close> (member \<^verbatim>\<open>z\<close>): one pointer-sized cell, read under
  either name.  \<^verbatim>\<open>Com_Memset\<close> of a slot to zero gives \<open>empty_slot\<close>.
\<close>

record fileHandleData_t =
  handleFiles_file :: ptr
  unique :: bool
  handleSync :: bool
  zipFilePos :: nat
  zipFile :: bool
  streamed :: bool
  name :: string

definition empty_slot :: fileHandleData_t where
  "empty_slot = \<lparr>handleFiles_file = 0, unique = qfalse, handleSync = qfalse, zipFilePos = 0,
     zipFile = qfalse, streamed = qfalse, name = []\<rparr>"

text \<open>
  A pack as the functions here read it: its two names, and the archive object it was
  opened as.  A search path element holds a pack or a directory (the other pointer is
  \<^verbatim>\<open>NULL\<close>).
\<close>

record pack_t =
  pakGamename :: string
  pakBasename :: string
  pak_handle :: ptr

record directory_t =
  dir_path :: string
  dir_gamedir :: string

record searchpath_t =
  pack :: "pack_t option"
  dir :: "directory_t option"

text \<open>
  The C library's side.  An open \<^verbatim>\<open>FILE\<close> is the path it was opened on, its position
  and whether it was opened for appending; the bytes live in \<open>files\<close>, and writes reach
  them at once (buffering is not modelled, a flush is only recorded).  An opened archive
  is its entries (offset in the container, name, uncompressed bytes), the offset the
  codec stands at, and the bytes and read position of the entry that is open, if one is.
\<close>

record FILE_t =
  f_path :: string
  f_pos :: nat
  f_append :: bool

record unz_t =
  z_entries :: "(nat \<times> string \<times> byte list) list"
  z_offset :: nat
  z_current :: "(byte list \<times> nat) option"

text \<open>
  What the device does at the next native transfer (\<^verbatim>\<open>fread\<close>, \<^verbatim>\<open>fwrite\<close>): move at
  most so many bytes, or report the error code \<open>-1\<close>.  With no entry left a transfer
  moves all it can.
\<close>

datatype native_event = Deliver nat | Fail

text \<open>The calls that leave the process, in the order they were made.\<close>

datatype event =
    Com_Printf string "string list"
  | Call_mkdir string
  | Call_fopen string string
  | Call_fclose ptr
  | Call_remove string
  | Call_fflush ptr
  | Call_ftell ptr
  | Call_fseek ptr int fsOrigin_t
  | Call_fread ptr nat
  | Call_fwrite ptr nat
  | Call_unzSetOffset ptr nat
  | Call_unzOpenCurrentFile ptr
  | Call_unzReadCurrentFile ptr nat
  | Call_unzCloseCurrentFile ptr
  | Call_unzClose ptr

text \<open>
  The constants \<^verbatim>\<open>MAX_FILE_HANDLES\<close>, \<^verbatim>\<open>MAX_OSPATH\<close>, \<^verbatim>\<open>BIG_INFO_STRING\<close> and the
  size of the \<^verbatim>\<open>name\<close> field come from headers that are not part of the sources at
  hand; they are fields of the world, so every theorem holds for each value of them.
  \<open>fsh\<close> is total: an index outside \<open>0 ..< MAX_FILE_HANDLES\<close> stands for the memory
  that surrounds the array, which is what the C code reads there.
  \<open>writable\<close> says on which paths the system lets a file be created or appended to,
  \<open>mkdir_errno\<close> on which paths \<^verbatim>\<open>mkdir\<close> fails and the value it leaves in \<^verbatim>\<open>errno\<close>
  then (\<open>None\<close> where it makes the directory and returns 0).
\<close>

record world =
  MAX_FILE_HANDLES :: nat
  MAX_OSPATH :: nat
  BIG_INFO_STRING :: nat
  MAX_ZPATH :: nat
  fs_searchpaths :: "searchpath_t list"
  fs_homepath :: string
  fs_basepath :: string
  fs_gamedir :: string
  fs_game :: string
  fs_debug :: bool
  fs_loadStack :: int
  fsh :: "int \<Rightarrow> fileHandleData_t"
  files :: "string \<rightharpoonup> byte list"
  writable :: "string \<Rightarrow> bool"
  mkdir_errno :: "string \<Rightarrow> int option"
  streams :: "ptr \<rightharpoonup> FILE_t"
  archives :: "ptr \<rightharpoonup> unz_t"
  next_ptr :: ptr
  schedule :: "native_event list"
  trace :: "event list"

definition emit :: "event \<Rightarrow> world \<Rightarrow> world" where
  "emit e w = w\<lparr>trace := trace w @ [e]\<rparr>"

definition set_slot :: "fileHandle_t \<Rightarrow> (fileHandleData_t \<Rightarrow> fileHandleData_t) \<Rightarrow> world \<Rightarrow> world" where
  "set_slot f upd w = w\<lparr>fsh := (fsh w)(f := upd (fsh w f))\<rparr>"

subsection \<open>C strings\<close>

text \<open>
  A C string is the list of its characters before the terminating zero.
  \<^verbatim>\<open>strstr\<close> returns the first place where the needle occurs, or \<^verbatim>\<open>NULL\<close>.
\<close>

fun strstr :: "string \<Rightarrow> string \<Rightarrow> string option" where
  "strstr [] needle = (if needle = [] then Some [] else None)"
| "strstr (c # cs) needle =
     (if prefix needle (c # cs) then Some (c # cs) else strstr cs needle)"

text \<open>
  Modelled from the spec: \<^verbatim>\<open>Q_strncpyz\<close>, \<^verbatim>\<open>Q_strcat\<close> and \<^verbatim>\<open>Com_sprintf\<close> are
  called by the sources but defined outside them.  Each writes into a buffer of
  \<open>size\<close> bytes and keeps at most \<open>size - 1\<close> characters before the terminator;
  \<^verbatim>\<open>Q_strcat\<close> appends to what the buffer holds.  \<^verbatim>\<open>Com_sprintf\<close> is given the text
  its format produces.
\<close>

definition Q_strncpyz :: "nat \<Rightarrow> string \<Rightarrow> string" where
  "Q_strncpyz destsize src = take (destsize - 1) src"

definition Q_strcat :: "nat \<Rightarrow> string \<Rightarrow> string \<Rightarrow> string" where
  "Q_strcat destsize dest src = dest @ take (destsize - length dest - 1) src"

definition Com_sprintf :: "nat \<Rightarrow> string \<Rightarrow> string" where
  "Com_sprintf destsize formatted = take (destsize - 1) formatted"

text \<open>
  Modelled from the spec: \<^verbatim>\<open>Q_stricmp\<close> and \<^verbatim>\<open>Q_stricmpn\<close> are called by the sources
  but defined outside them.  They are the engine's comparisons that ignore the case of
  the letters a to z, as \<^verbatim>\<open>FS_FilenameCompare\<close> of the sources does with its own
  loop; \<^verbatim>\<open>Q_stricmpn\<close> looks at no more than \<open>n\<close> characters and \<^verbatim>\<open>Q_stricmp\<close> is
  \<^verbatim>\<open>Q_stricmpn\<close> with the bound 99999.  The result is 0 for equal, -1 or 1 otherwise.
  \<open>c_char\<close> is the value of a \<^verbatim>\<open>char\<close> read into an \<^verbatim>\<open>int\<close>.
\<close>

definition c_char :: "char \<Rightarrow> int" where
  "c_char c = (if of_char c < (128::int) then of_char c else of_char c - 256)"

definition upcase :: "int \<Rightarrow> int" where
  "upcase c = (if 97 \<le> c \<and> c \<le> 122 then c - 32 else c)"

definition cmp_result :: "int \<Rightarrow> int \<Rightarrow> int" where
  "cmp_result c1 c2 = (if c1 < c2 then -1 else 1)"

fun Q_stricmpn :: "string \<Rightarrow> string \<Rightarrow> int \<Rightarrow> int" where
  "Q_stricmpn [] [] n = 0"
| "Q_stricmpn [] (b # bs) n = (if n = 0 then 0 else cmp_result 0 (upcase (c_char b)))"
| "Q_stricmpn (a # as) [] n = (if n = 0 then 0 else cmp_result (upcase (c_char a)) 0)"
| "Q_stricmpn (a # as) (b # bs) n =
     (if n = 0 then 0
      else if upcase (c_char a) \<noteq> upcase (c_char b)
        then cmp_result (upcase (c_char a)) (upcase (c_char b))
      else Q_stricmpn as bs (n - 1))"

definition Q_stricmp :: "string \<Rightarrow> string \<Rightarrow> int" where
  "Q_stricmp s1 s2 = Q_stricmpn s1 s2 99999"

subsection \<open>Paths\<close>

text \<open>\<^verbatim>\<open>PATH_SEP\<close> is a macro of the platform header; the file is built for POSIX.\<close>

definition PATH_SEP :: char where
  "PATH_SEP = CHR ''/''"

definition FS_ReplaceSeparators :: "string \<Rightarrow> string" where
  "FS_ReplaceSeparators path =
     map (\<lambda>s. if s = CHR ''/'' \<or> s = CHR 0x5C then PATH_SEP else s) path"

text \<open>
  \<^verbatim>\<open>FS_BuildOSPath\<close> returns one of two static buffers in turn; the callers modelled
  here use the result before a third call is made, so the result is the string.
\<close>

definition FS_BuildOSPath :: "world \<Rightarrow> string \<Rightarrow> string \<Rightarrow> string \<Rightarrow> string" where
  "FS_BuildOSPath w base game qpath =
     (let game' = (if game = [] then fs_gamedir w else game);
          temp = Com_sprintf (MAX_OSPATH w) (''/'' @ game' @ ''/'' @ qpath);
          temp' = FS_ReplaceSeparators temp
      in Com_sprintf (MAX_OSPATH w) (base @ temp'))"

text \<open>
  \<^verbatim>\<open>Sys_Mkdir\<close>: the call of \<^verbatim>\<open>mkdir\<close> is recorded.  When \<^verbatim>\<open>mkdir\<close> fails, the answer
  is whether \<^verbatim>\<open>errno\<close> is \<^verbatim>\<open>EEXIST\<close>; when it returns 0, the answer is \<^verbatim>\<open>qtrue\<close>.
  \<^verbatim>\<open>EEXIST\<close> is a macro of the system's \<^verbatim>\<open>errno.h\<close>, 17 on the platforms the file is
  built for.
\<close>

definition EEXIST :: int where
  "EEXIST = 17"

definition Sys_Mkdir :: "world \<Rightarrow> string \<Rightarrow> bool \<times> world" where
  "Sys_Mkdir w path =
     (let w1 = emit (Call_mkdir path) w
      in case mkdir_errno w path of
           Some errno \<Rightarrow> (errno = EEXIST, w1)
         | None \<Rightarrow> (qtrue, w1))"

text \<open>
  \<^verbatim>\<open>FS_CreatePath\<close>: the loop visits the offsets \<open>1, 2, ...\<close> up to the terminator and, at
  each separator, makes the directory named by the characters before it.
\<close>

definition FS_CreatePath :: "world \<Rightarrow> string \<Rightarrow> bool \<times> world" where
  "FS_CreatePath w OSPath =
     (if strstr OSPath ''..'' \<noteq> None \<or> strstr OSPath ''::'' \<noteq> None
      then (qtrue, emit (Com_Printf ''WARNING: refusing to create relative path'' [OSPath]) w)
      else (qfalse,
            foldl (\<lambda>w' ofs. if OSPath ! ofs = PATH_SEP then snd (Sys_Mkdir w' (take ofs OSPath)) else w')
              w [1 ..< length OSPath]))"

subsection \<open>The handle table\<close>

definition FS_Initialized :: "world \<Rightarrow> bool" where
  "FS_Initialized w = (fs_searchpaths w \<noteq> [])"

definition not_initialized :: error where
  "not_initialized = Com_Error ERR_FATAL ''Filesystem call made without initialization''"

text \<open>\<^verbatim>\<open>FS_HandleForFile\<close>: the first \<open>i\<close> of \<open>1, ..., MAX_FILE_HANDLES - 1\<close> whose slot is empty.\<close>

definition FS_HandleForFile :: "world \<Rightarrow> error + fileHandle_t" where
  "FS_HandleForFile w =
     (case find (\<lambda>i. handleFiles_file (fsh w i) = 0) (map int [1 ..< MAX_FILE_HANDLES w]) of
        Some i \<Rightarrow> Inr i
      | None \<Rightarrow> Inl (Com_Error ERR_DROP ''FS_HandleForFile: none free''))"

definition FS_FileForHandle :: "world \<Rightarrow> fileHandle_t \<Rightarrow> error + ptr" where
  "FS_FileForHandle w f =
     (if f < 0 \<or> f > int (MAX_FILE_HANDLES w)
        then Inl (Com_Error ERR_DROP ''FS_FileForHandle: out of range'')
      else if handleFiles_file (fsh w f) = 0
        then Inl (Com_Error ERR_DROP ''FS_FileForHandle: NULL'')
      else Inr (handleFiles_file (fsh w f)))"

subsection \<open>The C library and the archive codec\<close>

text \<open>
  The native calls, over the world's disk and stream table.  A call on a pointer that is
  not an open stream is undefined in C and is the error \<open>Bad_Stream\<close> here.
  \<^verbatim>\<open>fopen\<close> hands out a fresh, non-null address.
\<close>

definition file_data :: "world \<Rightarrow> string \<Rightarrow> byte list" where
  "file_data w path = (case files w path of None \<Rightarrow> [] | Some d \<Rightarrow> d)"

definition new_stream :: "world \<Rightarrow> string \<Rightarrow> bool \<Rightarrow> ptr \<times> world" where
  "new_stream w path app =
     (let p = Suc (next_ptr w)
      in (p, w\<lparr>streams := (streams w)(p \<mapsto> \<lparr>f_path = path, f_pos = 0, f_append = app\<rparr>),
                next_ptr := p\<rparr>))"

definition native_fopen :: "world \<Rightarrow> string \<Rightarrow> string \<Rightarrow> ptr \<times> world" where
  "native_fopen w path mode =
     (let w1 = emit (Call_fopen path mode) w
      in if mode = ''rb'' then
           (if files w path = None then (0, w1) else new_stream w1 path False)
         else if \<not> writable w path then (0, w1)
         else if mode = ''wb'' then new_stream (w1\<lparr>files := (files w1)(path \<mapsto> [])\<rparr>) path False
         else new_stream (w1\<lparr>files := (files w1)(path \<mapsto> file_data w path)\<rparr>) path True)"

definition native_fclose :: "world \<Rightarrow> ptr \<Rightarrow> world" where
  "native_fclose w fp = (emit (Call_fclose fp) w)\<lparr>streams := (streams w)(fp := None)\<rparr>"

definition native_remove :: "world \<Rightarrow> string \<Rightarrow> int \<times> world" where
  "native_remove w path =
     (if files w path = None then (-1, emit (Call_remove path) w)
      else (0, (emit (Call_remove path) w)\<lparr>files := (files w)(path := None)\<rparr>))"

definition native_fflush :: "world \<Rightarrow> ptr \<Rightarrow> world" where
  "native_fflush w fp = emit (Call_fflush fp) w"

definition native_ftell :: "world \<Rightarrow> ptr \<Rightarrow> (error + int) \<times> world" where
  "native_ftell w fp =
     (case streams w fp of
        None \<Rightarrow> (Inl Bad_Stream, emit (Call_ftell fp) w)
      | Some s \<Rightarrow> (Inr (int (f_pos s)), emit (Call_ftell fp) w))"

definition native_fseek :: "world \<Rightarrow> ptr \<Rightarrow> int \<Rightarrow> fsOrigin_t \<Rightarrow> (error + int) \<times> world" where
  "native_fseek w fp offset origin =
     (case streams w fp of
        None \<Rightarrow> (Inl Bad_Stream, emit (Call_fseek fp offset origin) w)
      | Some s \<Rightarrow>
          (let target = (case origin of
                           FS_SEEK_SET \<Rightarrow> offset
                         | FS_SEEK_END \<Rightarrow> int (length (file_data w (f_path s))) + offset
                         | _ \<Rightarrow> int (f_pos s) + offset);
               w1 = emit (Call_fseek fp offset origin) w
           in if target < 0 then (Inr (-1), w1)
              else (Inr 0, w1\<lparr>streams := (streams w)(fp \<mapsto> s\<lparr>f_pos := nat target\<rparr>)\<rparr>)))"

definition transfer_limit :: "world \<Rightarrow> nat \<Rightarrow> nat" where
  "transfer_limit w block =
     (case schedule w of Deliver n # _ \<Rightarrow> min block n | _ \<Rightarrow> block)"

definition native_fread :: "world \<Rightarrow> ptr \<Rightarrow> nat \<Rightarrow> (error + int \<times> byte list) \<times> world" where
  "native_fread w fp block =
     (case streams w fp of
        None \<Rightarrow> (Inl Bad_Stream, emit (Call_fread fp block) w)
      | Some s \<Rightarrow>
          (let w1 = (emit (Call_fread fp block) w)\<lparr>schedule := tl (schedule w)\<rparr>
           in case schedule w of
                Fail # _ \<Rightarrow> (Inr (-1, []), w1)
              | _ \<Rightarrow>
                 (let got = take (transfer_limit w block) (drop (f_pos s) (file_data w (f_path s)))
                  in (Inr (int (length got), got),
                      w1\<lparr>streams := (streams w)(fp \<mapsto> s\<lparr>f_pos := f_pos s + length got\<rparr>)\<rparr>))))"

definition write_at :: "nat \<Rightarrow> byte list \<Rightarrow> byte list \<Rightarrow> byte list" where
  "write_at pos chunk data =
     take pos data @ replicate (pos - length data) 0 @ chunk @ drop (pos + length chunk) data"

definition native_fwrite :: "world \<Rightarrow> ptr \<Rightarrow> byte list \<Rightarrow> (error + int) \<times> world" where
  "native_fwrite w fp buf =
     (case streams w fp of
        None \<Rightarrow> (Inl Bad_Stream, emit (Call_fwrite fp (length buf)) w)
      | Some s \<Rightarrow>
          (let w1 = (emit (Call_fwrite fp (length buf)) w)\<lparr>schedule := tl (schedule w)\<rparr>
           in case schedule w of
                Fail # _ \<Rightarrow> (Inr (-1), w1)
              | _ \<Rightarrow>
                 (let chunk = take (transfer_limit w (length buf)) buf;
                      data = file_data w (f_path s);
                      pos = (if f_append s then length data else f_pos s)
                  in (Inr (int (length chunk)),
                      w1\<lparr>files := (files w)(f_path s \<mapsto> write_at pos chunk data),
                         streams := (streams w)(fp \<mapsto> s\<lparr>f_pos := pos + length chunk\<rparr>)\<rparr>))))"

text \<open>
  Modelled from the spec: the archive codec (\<^verbatim>\<open>unzSetOffset\<close>, \<^verbatim>\<open>unzOpenCurrentFile\<close>,
  \<^verbatim>\<open>unzReadCurrentFile\<close>, \<^verbatim>\<open>unzCloseCurrentFile\<close>, \<^verbatim>\<open>unzClose\<close>) is a library outside
  the sources.  It moves to an entry by its offset in the container, opens the entry it
  stands at from its first byte, and reads the open entry sequentially, answering the
  count of bytes it delivered; on a pointer that is no archive, or with no entry open,
  a read answers the codec's parameter error and delivers nothing.
\<close>

definition UNZ_PARAMERROR :: int where
  "UNZ_PARAMERROR = -102"

definition unzSetOffset :: "world \<Rightarrow> ptr \<Rightarrow> nat \<Rightarrow> world" where
  "unzSetOffset w z pos =
     (let w1 = emit (Call_unzSetOffset z pos) w
      in case archives w z of
           None \<Rightarrow> w1
         | Some a \<Rightarrow> w1\<lparr>archives := (archives w)(z \<mapsto> a\<lparr>z_offset := pos\<rparr>)\<rparr>)"

definition unzOpenCurrentFile :: "world \<Rightarrow> ptr \<Rightarrow> world" where
  "unzOpenCurrentFile w z =
     (let w1 = emit (Call_unzOpenCurrentFile z) w
      in case archives w z of
           None \<Rightarrow> w1
         | Some a \<Rightarrow>
             w1\<lparr>archives := (archives w)(z \<mapsto>
                  a\<lparr>z_current := map_option (\<lambda>(off, nm, d). (d, 0))
                                   (find (\<lambda>(off, nm, d). off = z_offset a) (z_entries a))\<rparr>)\<rparr>)"

definition unzReadCurrentFile :: "world \<Rightarrow> ptr \<Rightarrow> nat \<Rightarrow> (int \<times> byte list) \<times> world" where
  "unzReadCurrentFile w z len =
     (let w1 = emit (Call_unzReadCurrentFile z len) w
      in case archives w z of
           None \<Rightarrow> ((UNZ_PARAMERROR, []), w1)
         | Some a \<Rightarrow>
            (case z_current a of
               None \<Rightarrow> ((UNZ_PARAMERROR, []), w1)
             | Some (d, pos) \<Rightarrow>
                 (let got = take len (drop pos d)
                  in ((int (length got), got),
                      w1\<lparr>archives := (archives w)(z \<mapsto> a\<lparr>z_current := Some (d, pos + length got)\<rparr>)\<rparr>))))"

definition unzCloseCurrentFile :: "world \<Rightarrow> ptr \<Rightarrow> world" where
  "unzCloseCurrentFile w z =
     (let w1 = emit (Call_unzCloseCurrentFile z) w
      in case archives w z of
           None \<Rightarrow> w1
         | Some a \<Rightarrow> w1\<lparr>archives := (archives w)(z \<mapsto> a\<lparr>z_current := None\<rparr>)\<rparr>)"

definition unzClose :: "world \<Rightarrow> ptr \<Rightarrow> world" where
  "unzClose w z = (emit (Call_unzClose z) w)\<lparr>archives := (archives w)(z := None)\<rparr>"

subsection \<open>Files by handle\<close>

definition FS_filelength :: "world \<Rightarrow> fileHandle_t \<Rightarrow> (error + int) \<times> world" where
  "FS_filelength w f =
     (case FS_FileForHandle w f of
        Inl e \<Rightarrow> (Inl e, w)
      | Inr h \<Rightarrow>
         (case native_ftell w h of
            (Inl e, w1) \<Rightarrow> (Inl e, w1)
          | (Inr pos, w1) \<Rightarrow>
             (case native_fseek w1 h 0 FS_SEEK_END of
                (Inl e, w2) \<Rightarrow> (Inl e, w2)
              | (Inr _, w2) \<Rightarrow>
                 (case native_ftell w2 h of
                    (Inl e, w3) \<Rightarrow> (Inl e, w3)
                  | (Inr end_pos, w3) \<Rightarrow>
                     (case native_fseek w3 h pos FS_SEEK_SET of
                        (Inl e, w4) \<Rightarrow> (Inl e, w4)
                      | (Inr _, w4) \<Rightarrow> (Inr end_pos, w4))))))"

text \<open>
  The server-local calls build the path with the file name in the place of the game
  directory and an empty qpath, then cut the separator that ends the result.
\<close>

definition FS_SV_HomeRemove :: "world \<Rightarrow> string \<Rightarrow> bool \<times> world" where
  "FS_SV_HomeRemove w path =
     (let osPath = butlast (FS_BuildOSPath w (fs_homepath w) path []);
          (r, w1) = native_remove w osPath
      in (r = 0, w1))"

definition FS_FCloseFile :: "world \<Rightarrow> fileHandle_t \<Rightarrow> bool \<times> world" where
  "FS_FCloseFile w f =
     (if zipFile (fsh w f) then
        (let w1 = unzCloseCurrentFile w (handleFiles_file (fsh w f));
             w2 = (if unique (fsh w1 f) then unzClose w1 (handleFiles_file (fsh w1 f)) else w1)
         in (qtrue, set_slot f (\<lambda>_. empty_slot) w2))
      else if handleFiles_file (fsh w f) \<noteq> 0 then
        (qtrue, set_slot f (\<lambda>_. empty_slot) (native_fclose w (handleFiles_file (fsh w f))))
      else (qfalse, set_slot f (\<lambda>_. empty_slot) w))"

text \<open>
  \<^verbatim>\<open>FS_FilenameCompare\<close>: 0 when the names agree up to the case of letters and the
  kind of separator, -1 otherwise.
\<close>

definition path_char :: "int \<Rightarrow> int" where
  "path_char c = (let c1 = upcase c in if c1 = 92 \<or> c1 = 58 then 47 else c1)"

fun FS_FilenameCompare :: "string \<Rightarrow> string \<Rightarrow> int" where
  "FS_FilenameCompare [] [] = 0"
| "FS_FilenameCompare [] (b # bs) = (if path_char 0 \<noteq> path_char (c_char b) then -1 else 0)"
| "FS_FilenameCompare (a # as) [] = (if path_char (c_char a) \<noteq> path_char 0 then -1 else 0)"
| "FS_FilenameCompare (a # as) (b # bs) =
     (if path_char (c_char a) \<noteq> path_char (c_char b) then -1 else FS_FilenameCompare as bs)"

definition FS_FTell :: "world \<Rightarrow> fileHandle_t \<Rightarrow> (error + int) \<times> world" where
  "FS_FTell w f = native_ftell w (handleFiles_file (fsh w f))"

definition FS_Flush :: "world \<Rightarrow> fileHandle_t \<Rightarrow> world" where
  "FS_Flush w f = native_fflush w (handleFiles_file (fsh w f))"

definition FS_SV_FOpenFileWrite :: "world \<Rightarrow> string \<Rightarrow> (error + fileHandle_t) \<times> world" where
  "FS_SV_FOpenFileWrite w filename =
     (if fs_searchpaths w = [] then (Inl not_initialized, w)
      else
        (let ospath = butlast (FS_BuildOSPath w (fs_homepath w) filename [])
         in case FS_HandleForFile w of
              Inl e \<Rightarrow> (Inl e, w)
            | Inr f \<Rightarrow>
               (let w1 = set_slot f (\<lambda>s. s\<lparr>zipFile := qfalse\<rparr>) w;
                    w2 = (if fs_debug w1 then emit (Com_Printf ''FS_SV_FOpenFileWrite:'' [ospath]) w1 else w1);
                    (refused, w3) = FS_CreatePath w2 ospath
                in if refused then (Inr 0, w3)
                   else
                     (let (fp, w4) = native_fopen w3 ospath ''wb'';
                          w5 = set_slot f (\<lambda>s. s\<lparr>handleFiles_file := fp,
                                  name := Q_strncpyz (MAX_ZPATH w4) filename, handleSync := qfalse\<rparr>) w4
                      in (Inr (if handleFiles_file (fsh w5 f) = 0 then 0 else f), w5)))))"

definition FS_SV_FOpenFileRead :: "world \<Rightarrow> string \<Rightarrow> (error + int \<times> fileHandle_t) \<times> world" where
  "FS_SV_FOpenFileRead w filename =
     (if fs_searchpaths w = [] then (Inl not_initialized, w)
      else
        (case FS_HandleForFile w of
           Inl e \<Rightarrow> (Inl e, w)
         | Inr f \<Rightarrow>
            (let w1 = set_slot f (\<lambda>s. s\<lparr>zipFile := qfalse, name := Q_strncpyz (MAX_ZPATH w) filename\<rparr>) w;
                 ospath = butlast (FS_BuildOSPath w1 (fs_homepath w1) filename []);
                 w2 = (if fs_debug w1 then emit (Com_Printf ''FS_SV_FOpenFileRead (fs_homepath):'' [ospath]) w1 else w1);
                 (fp, w3) = native_fopen w2 ospath ''rb'';
                 w4 = set_slot f (\<lambda>s. s\<lparr>handleFiles_file := fp, handleSync := qfalse\<rparr>) w3;
                 w5 = (if handleFiles_file (fsh w4 f) = 0 \<and> Q_stricmp (fs_homepath w4) (fs_basepath w4) \<noteq> 0
                       then
                         (let ospath2 = butlast (FS_BuildOSPath w4 (fs_basepath w4) filename []);
                              w4a = (if fs_debug w4 then emit (Com_Printf ''FS_SV_FOpenFileRead (fs_basepath):'' [ospath2]) w4 else w4);
                              (fp2, w4b) = native_fopen w4a ospath2 ''rb''
                          in set_slot f (\<lambda>s. s\<lparr>handleFiles_file := fp2, handleSync := qfalse\<rparr>) w4b)
                       else w4);
                 f' = (if handleFiles_file (fsh w5 f) = 0 then 0 else f)
             in if f' \<noteq> 0
                then (case FS_filelength w5 f' of
                        (Inl e, w6) \<Rightarrow> (Inl e, w6)
                      | (Inr n, w6) \<Rightarrow> (Inr (n, f'), w6))
                else (Inr (0, f'), w5))))"

definition FS_SV_FOpenFileAppend :: "world \<Rightarrow> string \<Rightarrow> (error + fileHandle_t) \<times> world" where
  "FS_SV_FOpenFileAppend w filename =
     (if fs_searchpaths w = [] then (Inl not_initialized, w)
      else
        (case FS_HandleForFile w of
           Inl e \<Rightarrow> (Inl e, w)
         | Inr f \<Rightarrow>
            (let w1 = set_slot f (\<lambda>s. s\<lparr>zipFile := qfalse, name := Q_strncpyz (MAX_ZPATH w) filename\<rparr>) w;
                 ospath = butlast (FS_BuildOSPath w1 (fs_homepath w1) filename []);
                 w2 = (if fs_debug w1 then emit (Com_Printf ''FS_SV_FOpenFileAppend (fs_homepath):'' [ospath]) w1 else w1);
                 (refused, w3) = FS_CreatePath w2 ospath
             in if refused then (Inr 0, w3)
                else
                  (let (fp, w4) = native_fopen w3 ospath ''ab'';
                       w5 = set_slot f (\<lambda>s. s\<lparr>handleFiles_file := fp, handleSync := qfalse\<rparr>) w4
                   in (Inr (if handleFiles_file (fsh w5 f) = 0 then 0 else f), w5)))))"

subsection \<open>Reading and writing\<close>

lemma native_fread_count:
  "native_fread w fp block = (Inr (rd, got), w') \<Longrightarrow> rd = -1 \<or> (0 \<le> rd \<and> nat rd \<le> block)"
  by (auto simp: native_fread_def Let_def transfer_limit_def
      split: option.splits list.splits native_event.splits)

lemma native_fwrite_count:
  "native_fwrite w fp buf = (Inr written, w') \<Longrightarrow> written = -1 \<or> (0 \<le> written \<and> nat written \<le> length buf)"
  by (auto simp: native_fwrite_def Let_def transfer_limit_def
      split: option.splits list.splits native_event.splits)

text \<open>
  The loop of \<^verbatim>\<open>FS_Read\<close> on a plain file.  \<open>remaining\<close> and \<open>tries\<close> are the C
  variables; \<open>buf\<close> is what the caller's buffer holds from its start up to the write
  pointer.  The requested length is a natural number: a negative \<^verbatim>\<open>len\<close> is no request.
\<close>

function FS_Read_loop ::
  "world \<Rightarrow> fileHandle_t \<Rightarrow> nat \<Rightarrow> nat \<Rightarrow> bool \<Rightarrow> byte list \<Rightarrow> (error + int \<times> byte list) \<times> world" where
  "FS_Read_loop w f len remaining tries buf =
     (if remaining = 0 then (Inr (int len, buf), w)
      else
        (case native_fread w (handleFiles_file (fsh w f)) remaining of
           (Inl e, w') \<Rightarrow> (Inl e, w')
         | (Inr (rd, got), w') \<Rightarrow>
            if rd = 0 \<and> tries then (Inr (int len - int remaining, buf), w')
            else if rd = -1 then (Inl (Com_Error ERR_FATAL ''FS_Read: -1 bytes read''), w')
            else FS_Read_loop w' f len (remaining - nat rd) (tries \<or> rd = 0) (buf @ got)))"
  by pat_completeness auto
termination
proof (relation "measure (\<lambda>(w, f, len, remaining, tries, buf). 2 * remaining + (if tries then 0 else 1))",
    goal_cases)
  case 1
  show ?case by simp
next
  case (2 w f len remaining tries buf x1 w' x2 rd got)
  from 2 have "native_fread w (handleFiles_file (fsh w f)) remaining = (Inr (rd, got), w')"
    by simp
  from native_fread_count [OF this] 2 show ?case
    by auto
qed

declare FS_Read_loop.simps [simp del]

definition FS_Read :: "world \<Rightarrow> nat \<Rightarrow> fileHandle_t \<Rightarrow> (error + int \<times> byte list) \<times> world" where
  "FS_Read w len f =
     (if fs_searchpaths w = [] then (Inl not_initialized, w)
      else if f = 0 then (Inr (0, []), w)
      else if zipFile (fsh w f) = qfalse then FS_Read_loop w f len len False []
      else (case unzReadCurrentFile w (handleFiles_file (fsh w f)) len of
              (r, w') \<Rightarrow> (Inr r, w')))"

text \<open>
  The loop of \<^verbatim>\<open>FS_Write\<close>: \<open>buf\<close> is the part of the caller's buffer from the read
  pointer on, so \<open>remaining\<close> is its length.  The loop answers whether it ran to its end.
\<close>

function FS_Write_loop :: "world \<Rightarrow> ptr \<Rightarrow> byte list \<Rightarrow> bool \<Rightarrow> (error + bool) \<times> world" where
  "FS_Write_loop w f buf tries =
     (if length buf = 0 then (Inr True, w)
      else
        (case native_fwrite w f buf of
           (Inl e, w') \<Rightarrow> (Inl e, w')
         | (Inr written, w') \<Rightarrow>
            if written = 0 \<and> tries then (Inr False, emit (Com_Printf ''FS_Write: 0 bytes written'' []) w')
            else if written = -1 then (Inr False, emit (Com_Printf ''FS_Write: -1 bytes written'' []) w')
            else FS_Write_loop w' f (drop (nat written) buf) (tries \<or> written = 0)))"
  by pat_completeness auto
termination
proof (relation "measure (\<lambda>(w, f, buf, tries). 2 * length buf + (if tries then 0 else 1))",
    goal_cases)
  case 1
  show ?case by simp
next
  case (2 w f buf tries x1 w' written)
  from 2 have "native_fwrite w f buf = (Inr written, w')"
    by simp
  from native_fwrite_count [OF this] 2 show ?case
    by auto
qed

declare FS_Write_loop.simps [simp del]

definition FS_Write :: "world \<Rightarrow> byte list \<Rightarrow> fileHandle_t \<Rightarrow> (error + int) \<times> world" where
  "FS_Write w buffer h =
     (if fs_searchpaths w = [] then (Inl not_initialized, w)
      else if h = 0 then (Inr 0, w)
      else
        (case FS_FileForHandle w h of
           Inl e \<Rightarrow> (Inl e, w)
         | Inr f \<Rightarrow>
            (case FS_Write_loop w f buffer False of
               (Inl e, w') \<Rightarrow> (Inl e, w')
             | (Inr False, w') \<Rightarrow> (Inr 0, w')
             | (Inr True, w') \<Rightarrow>
                 (Inr (int (length buffer)),
                  if handleSync (fsh w' h) then native_fflush w' f else w'))))"

subsection \<open>Seeking\<close>

definition PK3_SEEK_BUFFER_SIZE :: nat where
  "PK3_SEEK_BUFFER_SIZE = 65536"

text \<open>
  The two loops of the archive branch: read a full scratch buffer while more than one
  buffer remains, then read the rest.  What the reads answer is dropped, but an error
  they raise leaves \<^verbatim>\<open>FS_Seek\<close> with them.
\<close>

function FS_Seek_discard :: "world \<Rightarrow> fileHandle_t \<Rightarrow> nat \<Rightarrow> (error + unit) \<times> world" where
  "FS_Seek_discard w f remainder =
     (if remainder > PK3_SEEK_BUFFER_SIZE then
        (case FS_Read w PK3_SEEK_BUFFER_SIZE f of
           (Inl e, w') \<Rightarrow> (Inl e, w')
         | (Inr _, w') \<Rightarrow> FS_Seek_discard w' f (remainder - PK3_SEEK_BUFFER_SIZE))
      else
        (case FS_Read w remainder f of
           (Inl e, w') \<Rightarrow> (Inl e, w')
         | (Inr _, w') \<Rightarrow> (Inr (), w')))"
  by pat_completeness auto
termination
  by (relation "measure (\<lambda>(w, f, remainder). remainder)") (auto simp: PK3_SEEK_BUFFER_SIZE_def)

declare FS_Seek_discard.simps [simp del]

text \<open>\<^verbatim>\<open>FS_Seek\<close> below its check of the \<^verbatim>\<open>streamed\<close> flag.\<close>

definition FS_Seek_body :: "world \<Rightarrow> fileHandle_t \<Rightarrow> int \<Rightarrow> fsOrigin_t \<Rightarrow> (error + int) \<times> world" where
  "FS_Seek_body w f offset origin =
     (if zipFile (fsh w f) = qtrue then
        (if offset < 0 \<or> origin = FS_SEEK_END then
           (Inl (Com_Error ERR_FATAL
              ''Negative offsets and FS_SEEK_END not implemented for FS_Seek on pk3 file contents''), w)
         else
           (case origin of
              FS_SEEK_SET \<Rightarrow>
                (let w1 = unzSetOffset w (handleFiles_file (fsh w f)) (zipFilePos (fsh w f));
                     w2 = unzOpenCurrentFile w1 (handleFiles_file (fsh w1 f))
                 in case FS_Seek_discard w2 f (nat offset) of
                      (Inl e, w3) \<Rightarrow> (Inl e, w3)
                    | (Inr _, w3) \<Rightarrow> (Inr offset, w3))
            | FS_SEEK_CUR \<Rightarrow>
                (case FS_Seek_discard w f (nat offset) of
                   (Inl e, w3) \<Rightarrow> (Inl e, w3)
                 | (Inr _, w3) \<Rightarrow> (Inr offset, w3))
            | _ \<Rightarrow> (Inl (Com_Error ERR_FATAL ''Bad origin in FS_Seek''), w)))
      else
        (case FS_FileForHandle w f of
           Inl e \<Rightarrow> (Inl e, w)
         | Inr file \<Rightarrow>
            (case origin of
               FS_SEEK_other _ \<Rightarrow> (Inl (Com_Error ERR_FATAL ''Bad origin in FS_Seek''), w)
             | _ \<Rightarrow> native_fseek w file offset origin)))"

text \<open>
  With \<^verbatim>\<open>streamed\<close> set the function first calls itself with the flag cleared, sets the
  flag again and then goes on into its own body.
\<close>

definition FS_Seek :: "world \<Rightarrow> fileHandle_t \<Rightarrow> int \<Rightarrow> fsOrigin_t \<Rightarrow> (error + int) \<times> world" where
  "FS_Seek w f offset origin =
     (if fs_searchpaths w = [] then (Inl not_initialized, w)
      else if streamed (fsh w f) then
        (case FS_Seek_body (set_slot f (\<lambda>s. s\<lparr>streamed := qfalse\<rparr>) w) f offset origin of
           (Inl e, w') \<Rightarrow> (Inl e, w')
         | (Inr _, w') \<Rightarrow> FS_Seek_body (set_slot f (\<lambda>s. s\<lparr>streamed := qtrue\<rparr>) w') f offset origin)
      else FS_Seek_body w f offset origin)"

subsection \<open>Pack verification\<close>

definition pak_teststring :: "world \<Rightarrow> pack_t \<Rightarrow> string" where
  "pak_teststring w p =
     Q_strcat (BIG_INFO_STRING w)
       (Q_strcat (BIG_INFO_STRING w)
          (Q_strcat (BIG_INFO_STRING w) (Q_strncpyz (BIG_INFO_STRING w) (pakGamename p)) ''/'')
          (pakBasename p))
       ''.iwd''"

text \<open>The loop of \<^verbatim>\<open>FS_VerifyPak\<close> over the search path list: true at the first match.\<close>

fun FS_VerifyPak_search :: "world \<Rightarrow> searchpath_t list \<Rightarrow> string \<Rightarrow> bool" where
  "FS_VerifyPak_search w [] pak = qfalse"
| "FS_VerifyPak_search w (search # rest) pak =
     (case pack search of
        Some p \<Rightarrow>
          (if Q_stricmp (pak_teststring w p) pak = 0 then qtrue else FS_VerifyPak_search w rest pak)
      | None \<Rightarrow> FS_VerifyPak_search w rest pak)"

definition FS_VerifyPak :: "world \<Rightarrow> string \<Rightarrow> bool" where
  "FS_VerifyPak w pak =
     (if FS_VerifyPak_search w (fs_searchpaths w) pak then qtrue
      else if Q_stricmp (Com_sprintf (BIG_INFO_STRING w) (fs_game w @ ''/mod.ff'')) pak = 0 then qtrue
      else if Q_stricmpn ''usermaps/'' pak 9 = 0 then
        (if strstr pak ''..'' \<noteq> None \<or> strstr pak '';'' \<noteq> None then qfalse else qtrue)
      else qfalse)"

subsection \<open>Whole files\<close>

text \<open>
  Modelled from the spec: \<^verbatim>\<open>FS_FOpenFileWrite\<close> is called by \<^verbatim>\<open>FS_WriteFile\<close> but defined
  outside the sources.  The spec's \<open>resolve_write\<close> fails fast before initialisation,
  always targets the current game directory under the home path, creates the missing
  directories first and fails if that fails, and hands out a handle of the table (0 when
  the open fails).  The steps are those of \<^verbatim>\<open>FS_SV_FOpenFileWrite\<close> of the sources, with
  the path that \<^verbatim>\<open>FS_FileExists\<close> of the sources builds for the same file.
\<close>

definition FS_FOpenFileWrite :: "world \<Rightarrow> string \<Rightarrow> (error + fileHandle_t) \<times> world" where
  "FS_FOpenFileWrite w filename =
     (if fs_searchpaths w = [] then (Inl not_initialized, w)
      else
        (case FS_HandleForFile w of
           Inl e \<Rightarrow> (Inl e, w)
         | Inr f \<Rightarrow>
            (let w1 = set_slot f (\<lambda>s. s\<lparr>zipFile := qfalse\<rparr>) w;
                 ospath = FS_BuildOSPath w1 (fs_homepath w1) [] filename;
                 (refused, w2) = FS_CreatePath w1 ospath
             in if refused then (Inr 0, w2)
                else
                  (let (fp, w3) = native_fopen w2 ospath ''wb'';
                       w4 = set_slot f (\<lambda>s. s\<lparr>handleFiles_file := fp,
                               name := Q_strncpyz (MAX_ZPATH w3) filename, handleSync := qfalse\<rparr>) w3
                   in (Inr (if handleFiles_file (fsh w4 f) = 0 then 0 else f), w4)))))"

text \<open>
  Modelled from the spec: \<^verbatim>\<open>FS_FOpenFileRead\<close> is called by \<^verbatim>\<open>FS_ReadFile\<close> but defined
  outside the sources.  The spec's \<open>resolve_read\<close> fails fast before initialisation, does
  not find a file whose name the sanitizer rejects, and walks the search path list in its
  order: in a pack it looks the name up with the case- and separator-insensitive
  comparison and, on a hit, opens an archive handle on the entry and answers its
  uncompressed length; in a directory it tries to open the composed path and, on a hit,
  answers a plain handle and the file's length.  The walk stops at the first hit; with
  no hit the handle is 0.
\<close>

fun FS_FOpenFileRead_walk ::
  "world \<Rightarrow> searchpath_t list \<Rightarrow> string \<Rightarrow> (error + int \<times> fileHandle_t) \<times> world" where
  "FS_FOpenFileRead_walk w [] filename = (Inr (-1, 0), w)"
| "FS_FOpenFileRead_walk w (search # rest) filename =
     (case pack search of
        Some pak \<Rightarrow>
          (case archives w (pak_handle pak) of
             None \<Rightarrow> FS_FOpenFileRead_walk w rest filename
           | Some a \<Rightarrow>
              (case find (\<lambda>(off, nm, d). FS_FilenameCompare nm filename = 0) (z_entries a) of
                 None \<Rightarrow> FS_FOpenFileRead_walk w rest filename
               | Some (off, nm, d) \<Rightarrow>
                  (case FS_HandleForFile w of
                     Inl e \<Rightarrow> (Inl e, w)
                   | Inr f \<Rightarrow>
                      (let w1 = set_slot f (\<lambda>s. s\<lparr>handleFiles_file := pak_handle pak, unique := qfalse,
                                   zipFile := qtrue, zipFilePos := off,
                                   name := Q_strncpyz (MAX_ZPATH w) filename\<rparr>) w;
                           w2 = unzSetOffset w1 (pak_handle pak) off;
                           w3 = unzOpenCurrentFile w2 (pak_handle pak)
                       in (Inr (int (length d), f), w3)))))
      | None \<Rightarrow>
          (case dir search of
             None \<Rightarrow> FS_FOpenFileRead_walk w rest filename
           | Some d \<Rightarrow>
              (case native_fopen w (FS_BuildOSPath w (dir_path d) (dir_gamedir d) filename) ''rb'' of
                 (fp, w1) \<Rightarrow>
                   if fp = 0 then FS_FOpenFileRead_walk w1 rest filename
                   else
                     (case FS_HandleForFile w1 of
                        Inl e \<Rightarrow> (Inl e, w1)
                      | Inr f \<Rightarrow>
                         (case FS_filelength
                                 (set_slot f (\<lambda>s. s\<lparr>handleFiles_file := fp, zipFile := qfalse,
                                    handleSync := qfalse,
                                    name := Q_strncpyz (MAX_ZPATH w1) filename\<rparr>) w1) f of
                            (Inl e, w2) \<Rightarrow> (Inl e, w2)
                          | (Inr n, w2) \<Rightarrow> (Inr (n, f), w2))))))"

definition FS_FOpenFileRead :: "world \<Rightarrow> string \<Rightarrow> (error + int \<times> fileHandle_t) \<times> world" where
  "FS_FOpenFileRead w filename =
     (if fs_searchpaths w = [] then (Inl not_initialized, w)
      else if strstr filename ''..'' \<noteq> None \<or> strstr filename ''::'' \<noteq> None then (Inr (-1, 0), w)
      else FS_FOpenFileRead_walk w (fs_searchpaths w) filename)"

text \<open>
  \<^verbatim>\<open>FS_ReadFile\<close>.  A pointer argument that may be \<^verbatim>\<open>NULL\<close> is an option; \<open>want\<close> says
  that the caller passed a place for the buffer.  The buffer comes from \<^verbatim>\<open>malloc\<close>:
  a byte of it that was never written is \<open>None\<close>.  The answer is the returned length
  and the buffer, if one was handed over.
\<close>

definition FS_ReadFile ::
  "world \<Rightarrow> string option \<Rightarrow> bool \<Rightarrow> (error + int \<times> byte option list option) \<times> world" where
  "FS_ReadFile w qpath want =
     (case qpath of
        None \<Rightarrow> (Inl (Com_Error ERR_FATAL ''FS_ReadFile with empty name''), w)
      | Some q \<Rightarrow>
         if q = [] then (Inl (Com_Error ERR_FATAL ''FS_ReadFile with empty name''), w)
         else
           (case FS_FOpenFileRead w q of
              (Inl e, w1) \<Rightarrow> (Inl e, w1)
            | (Inr (len, h), w1) \<Rightarrow>
               if h = 0 then (Inr (-1, None), w1)
               else if \<not> want then (Inr (len, None), snd (FS_FCloseFile w1 h))
               else
                 (case FS_Read (w1\<lparr>fs_loadStack := fs_loadStack w1 + 1\<rparr>) (nat len) h of
                    (Inl e, w2) \<Rightarrow> (Inl e, w2)
                  | (Inr (n, got), w2) \<Rightarrow>
                     (Inr (len, Some (map Some got @ replicate (nat len - length got) None @ [Some 0])),
                      snd (FS_FCloseFile w2 h)))))"

definition FS_WriteFile :: "world \<Rightarrow> string option \<Rightarrow> byte list option \<Rightarrow> (error + unit) \<times> world" where
  "FS_WriteFile w qpath buffer =
     (if fs_searchpaths w = [] then (Inl not_initialized, w)
      else
        (case (qpath, buffer) of
           (Some q, Some b) \<Rightarrow>
             (case FS_FOpenFileWrite w q of
                (Inl e, w1) \<Rightarrow> (Inl e, w1)
              | (Inr f, w1) \<Rightarrow>
                 if f = 0 then (Inr (), emit (Com_Printf ''Failed to open'' [q]) w1)
                 else
                   (case FS_Write w1 b f of
                      (Inl e, w2) \<Rightarrow> (Inl e, w2)
                    | (Inr _, w2) \<Rightarrow> (Inr (), snd (FS_FCloseFile w2 f))))
         | _ \<Rightarrow> (Inl (Com_Error ERR_FATAL ''FS_WriteFile: NULL parameter''), w)))"

subsection \<open>Callers and configurations used in the examples\<close>

text \<open>A caller that opens the files of a list one after the other, keeping every handle.\<close>

fun open_all :: "world \<Rightarrow> string list \<Rightarrow> (error + fileHandle_t list) \<times> world" where
  "open_all w [] = (Inr [], w)"
| "open_all w (n # ns) =
     (case FS_SV_FOpenFileRead w n of
        (Inl e, w') \<Rightarrow> (Inl e, w')
      | (Inr (len, f), w') \<Rightarrow>
         (case open_all w' ns of
            (Inl e, w'') \<Rightarrow> (Inl e, w'')
          | (Inr fs, w'') \<Rightarrow> (Inr (f # fs), w'')))"

text \<open>
  An initialised filesystem with an empty handle table of 64 slots and an empty disk, and
  the same with a disk on which every path is a file.
\<close>

definition example_world :: world where
  "example_world =
     \<lparr>MAX_FILE_HANDLES = 64, MAX_OSPATH = 256, BIG_INFO_STRING = 8192, MAX_ZPATH = 256,
      fs_searchpaths = [\<lparr>pack = None, dir = Some \<lparr>dir_path = ''/home/user'', dir_gamedir = ''main''\<rparr>\<rparr>],
      fs_homepath = ''/home/user'', fs_basepath = ''/opt/cod4'', fs_gamedir = ''main'',
      fs_game = ''mods/test'', fs_debug = False, fs_loadStack = 0,
      fsh = (\<lambda>_. empty_slot), files = Map.empty, writable = (\<lambda>_. True),
      mkdir_errno = (\<lambda>_. None),
      streams = Map.empty, archives = Map.empty, next_ptr = 0, schedule = [], trace = []\<rparr>"

definition full_disk_world :: world where
  "full_disk_world = example_world\<lparr>files := (\<lambda>_. Some [])\<rparr>"

text \<open>The same with a table of 65 slots: the pool hands out the handles 1 to 64.\<close>

definition pool_of_64_world :: world where
  "pool_of_64_world = full_disk_world\<lparr>MAX_FILE_HANDLES := 65\<rparr>"

definition numbered_names :: "nat \<Rightarrow> string list" where
  "numbered_names n = map (\<lambda>i. ''save'' @ [char_of i]) [0 ..< n]"

text \<open>The example configuration before initialisation: no search path.\<close>

definition uninitialized_world :: world where
  "uninitialized_world = example_world\<lparr>fs_searchpaths := []\<rparr>"

text \<open>
  The example configuration with two files on the disk, one reached from the home path
  and one from the base path, each through a parent directory.
\<close>

definition outside_world :: world where
  "outside_world =
     example_world\<lparr>files := [''/home/user/../secret.cfg'' \<mapsto> [1, 2, 3],
                              ''/opt/cod4/../other.cfg'' \<mapsto> [9]]\<rparr>"

text \<open>
  Two strings that \<^verbatim>\<open>Q_stricmp\<close> cannot tell apart: the same characters up to the case of
  the letters a to z.
\<close>

definition same_ignoring_case :: "string \<Rightarrow> string \<Rightarrow> bool" where
  "same_ignoring_case a b \<longleftrightarrow> map (\<lambda>c. upcase (c_char c)) a = map (\<lambda>c. upcase (c_char c)) b"

text \<open>The example configuration with the pack \<^verbatim>\<open>main/iw_00.iwd\<close> mounted before the directory.\<close>

definition pack_world :: world where
  "pack_world =
     example_world\<lparr>fs_searchpaths :=
       [\<lparr>pack = Some \<lparr>pakGamename = ''main'', pakBasename = ''iw_00'', pak_handle = 7\<rparr>, dir = None\<rparr>,
        \<lparr>pack = None, dir = Some \<lparr>dir_path = ''/home/user'', dir_gamedir = ''main''\<rparr>\<rparr>]\<rparr>"

text \<open>
  The example configuration with a plain file of eight bytes open for reading on the
  handle 1, and a device that follows the given schedule.
\<close>

definition reading_world :: "native_event list \<Rightarrow> world" where
  "reading_world sched =
     example_world\<lparr>files := [''/home/user/main/data.bin'' \<mapsto> [10, 20, 30, 40, 50, 60, 70, 80]],
       streams := [1 \<mapsto> \<lparr>f_path = ''/home/user/main/data.bin'', f_pos = 0, f_append = False\<rparr>],
       fsh := (\<lambda>i. if i = 1 then empty_slot\<lparr>handleFiles_file := 1\<rparr> else empty_slot),
       next_ptr := 1, schedule := sched\<rparr>"

text \<open>The streams that were flushed, in the order of the \<^verbatim>\<open>fflush\<close> calls of a log.\<close>

definition flushes :: "event list \<Rightarrow> ptr list" where
  "flushes evs = concat (map (\<lambda>e. case e of Call_fflush p \<Rightarrow> [p] | _ \<Rightarrow> []) evs)"

text \<open>
  The example configuration with an empty file open for writing on the handle 1, the
  sync flag of the handle as given, and a device that follows the given schedule.
\<close>

definition writing_world :: "bool \<Rightarrow> native_event list \<Rightarrow> world" where
  "writing_world sync sched =
     example_world\<lparr>files := [''/home/user/main/out.bin'' \<mapsto> []],
       streams := [1 \<mapsto> \<lparr>f_path = ''/home/user/main/out.bin'', f_pos = 0, f_append = False\<rparr>],
       fsh := (\<lambda>i. if i = 1 then empty_slot\<lparr>handleFiles_file := 1, handleSync := sync\<rparr>
                    else empty_slot),
       next_ptr := 1, schedule := sched\<rparr>"

text \<open>
  The lengths of the reads by which the archive branch of \<^verbatim>\<open>FS_Seek\<close> discards
  \<open>remainder\<close> bytes: full scratch buffers while more than one buffer remains, then
  the rest.
\<close>

function discard_reads :: "nat \<Rightarrow> nat list" where
  "discard_reads remainder =
     (if remainder > PK3_SEEK_BUFFER_SIZE
      then PK3_SEEK_BUFFER_SIZE # discard_reads (remainder - PK3_SEEK_BUFFER_SIZE)
      else [remainder])"
  by pat_completeness auto
termination
  by (relation "measure (\<lambda>remainder. remainder)") (auto simp: PK3_SEEK_BUFFER_SIZE_def)

declare discard_reads.simps [simp del]

text \<open>
  The example configuration with an archive that holds one entry of 10016 bytes, open
  on the handle 1 and read up to its fifth byte, and a plain file with the same bytes,
  open on the handle 2 and read up to its third byte.
\<close>

definition sample_content :: "byte list" where
  "sample_content = replicate 10000 0 @ [1, 2, 3, 4, 5, 6, 7, 8, 9, 10, 11, 12, 13, 14, 15, 16]"

definition archive_world :: world where
  "archive_world =
     example_world\<lparr>
       archives := [7 \<mapsto> \<lparr>z_entries = [(1234, ''sound/explosion.wav'', sample_content)],
                            z_offset = 0, z_current = Some (sample_content, 5)\<rparr>],
       files := [''/home/user/main/copy.bin'' \<mapsto> sample_content],
       streams := [9 \<mapsto> \<lparr>f_path = ''/home/user/main/copy.bin'', f_pos = 3, f_append = False\<rparr>],
       fsh := (\<lambda>i. if i = 1 then empty_slot\<lparr>handleFiles_file := 7, zipFile := qtrue, zipFilePos := 1234\<rparr>
                    else if i = 2 then empty_slot\<lparr>handleFiles_file := 9\<rparr>
                    else empty_slot),
       next_ptr := 9\<rparr>"

text \<open>
  A search path entry that is a pack without the given name: the pack is not an open
  archive, or none of its entries compares equal to the name.
\<close>

definition pack_lacks :: "world \<Rightarrow> string \<Rightarrow> searchpath_t \<Rightarrow> bool" where
  "pack_lacks w q sp =
     (case pack sp of
        None \<Rightarrow> False
      | Some pak \<Rightarrow>
          (case archives w (pak_handle pak) of
             None \<Rightarrow> True
           | Some a \<Rightarrow> find (\<lambda>(off, nm, d). FS_FilenameCompare nm q = 0) (z_entries a) = None))"

text \<open>
  The example configuration with a pack mounted before the home directory; the pack
  holds one entry of three bytes.
\<close>

definition mounted_world :: world where
  "mounted_world =
     example_world\<lparr>fs_searchpaths :=
       [\<lparr>pack = Some \<lparr>pakGamename = ''main'', pakBasename = ''iw_00'', pak_handle = 7\<rparr>, dir = None\<rparr>,
        \<lparr>pack = None, dir = Some \<lparr>dir_path = ''/home/user'', dir_gamedir = ''main''\<rparr>\<rparr>],
       archives := [7 \<mapsto> \<lparr>z_entries = [(1234, ''sound/explosion.wav'', [1, 2, 3])],
                            z_offset = 0, z_current = None\<rparr>]\<rparr>"

subsection \<open>Facts about strings\<close>

lemma strstr_None_iff: "strstr hay needle = None \<longleftrightarrow> \<not> sublist needle hay"
  by (induction hay) (auto simp: sublist_Cons_right)

lemma sublist_strstr: "sublist needle hay \<longleftrightarrow> strstr hay needle \<noteq> None"
  by (simp add: strstr_None_iff)


subsection \<open>Facts about paths\<close>

text \<open>The OS path depends on the path limit and the game directory only.\<close>

lemma FS_BuildOSPath_frame [simp]:
  "FS_BuildOSPath (fsh_update u1 w) = FS_BuildOSPath w"
  "FS_BuildOSPath (files_update u2 w) = FS_BuildOSPath w"
  "FS_BuildOSPath (streams_update u3 w) = FS_BuildOSPath w"
  "FS_BuildOSPath (archives_update u4 w) = FS_BuildOSPath w"
  "FS_BuildOSPath (next_ptr_update u5 w) = FS_BuildOSPath w"
  "FS_BuildOSPath (schedule_update u6 w) = FS_BuildOSPath w"
  "FS_BuildOSPath (trace_update u7 w) = FS_BuildOSPath w"
  "FS_BuildOSPath (fs_loadStack_update u8 w) = FS_BuildOSPath w"
  by (simp_all add: FS_BuildOSPath_def fun_eq_iff)

text \<open>Whatever \<^verbatim>\<open>mkdir\<close> answers, \<^verbatim>\<open>Sys_Mkdir\<close> leaves its call in the log and nothing else.\<close>

lemma Sys_Mkdir_snd: "snd (Sys_Mkdir w path) = emit (Call_mkdir path) w"
  by (simp add: Sys_Mkdir_def Let_def split: option.splits)

lemma FS_CreatePath_refuses:
  assumes "sublist ''..'' OSPath \<or> sublist ''::'' OSPath"
  shows "FS_CreatePath w OSPath =
           (qtrue, emit (Com_Printf ''WARNING: refusing to create relative path'' [OSPath]) w)"
  using assms by (simp add: FS_CreatePath_def strstr_None_iff)

lemma FS_CreatePath_accepts:
  assumes "\<not> (sublist ''..'' OSPath \<or> sublist ''::'' OSPath)"
  shows "fst (FS_CreatePath w OSPath) = qfalse"
  using assms by (simp add: FS_CreatePath_def strstr_None_iff)

lemma FS_SV_FOpenFileWrite_refused:
  assumes "fs_searchpaths w \<noteq> []"
    and "FS_HandleForFile w = Inr f"
    and "sublist ''..'' (butlast (FS_BuildOSPath w (fs_homepath w) filename []))
       \<or> sublist ''::'' (butlast (FS_BuildOSPath w (fs_homepath w) filename []))"
  shows "fst (FS_SV_FOpenFileWrite w filename) = Inr 0
       \<and> trace (snd (FS_SV_FOpenFileWrite w filename)) =
           trace w
           @ (if fs_debug w
              then [Com_Printf ''FS_SV_FOpenFileWrite:'' [butlast (FS_BuildOSPath w (fs_homepath w) filename [])]]
              else [])
           @ [Com_Printf ''WARNING: refusing to create relative path''
                [butlast (FS_BuildOSPath w (fs_homepath w) filename [])]]"
  using assms
  by (simp add: FS_SV_FOpenFileWrite_def Let_def FS_CreatePath_refuses set_slot_def emit_def)

subsection \<open>Facts about the handle table\<close>

lemma FS_HandleForFile_range:
  "FS_HandleForFile w = Inr j \<Longrightarrow>
     1 \<le> j \<and> j < int (MAX_FILE_HANDLES w) \<and> handleFiles_file (fsh w j) = 0"
  by (auto simp: FS_HandleForFile_def find_Some_iff split: option.splits)

lemma FS_HandleForFile_first:
  assumes "1 \<le> j" "j < MAX_FILE_HANDLES w" "handleFiles_file (fsh w (int j)) = 0"
    and "\<forall>i. 1 \<le> i \<and> i < j \<longrightarrow> handleFiles_file (fsh w (int i)) \<noteq> 0"
  shows "FS_HandleForFile w = Inr (int j)"
proof -
  have "find (\<lambda>i. handleFiles_file (fsh w i) = 0) (map int [1 ..< MAX_FILE_HANDLES w]) = Some (int j)"
    unfolding find_Some_iff
  proof (intro exI [of _ "j - 1"] conjI allI impI)
    show "j - 1 < length (map int [1 ..< MAX_FILE_HANDLES w])" using assms by simp
    show "handleFiles_file (fsh w (map int [1 ..< MAX_FILE_HANDLES w] ! (j - 1))) = 0"
      using assms by simp
    show "int j = map int [1 ..< MAX_FILE_HANDLES w] ! (j - 1)" using assms by simp
  next
    fix i assume "i < j - 1"
    then show "\<not> handleFiles_file (fsh w (map int [1 ..< MAX_FILE_HANDLES w] ! i)) = 0"
      using assms(2) assms(4) [rule_format, of "Suc i"] by (simp add: add.commute)
  qed
  then show ?thesis by (simp add: FS_HandleForFile_def)
qed

lemma FS_HandleForFile_full:
  assumes "\<forall>i. 1 \<le> i \<and> i < MAX_FILE_HANDLES w \<longrightarrow> handleFiles_file (fsh w (int i)) \<noteq> 0"
  shows "FS_HandleForFile w = Inl (Com_Error ERR_DROP ''FS_HandleForFile: none free'')"
proof -
  have "find (\<lambda>i. handleFiles_file (fsh w i) = 0) (map int [1 ..< MAX_FILE_HANDLES w]) = None"
    unfolding find_None_iff using assms by auto
  then show ?thesis by (simp add: FS_HandleForFile_def)
qed

text \<open>
  A server-local open for reading that finds its file under the home path: the first
  free slot becomes the handle, and nothing but that slot, the stream table and the log
  of calls changes.
\<close>

lemma FS_SV_FOpenFileRead_hit:
  assumes init: "fs_searchpaths w \<noteq> []"
    and h: "FS_HandleForFile w = Inr j"
    and ex: "files w (butlast (FS_BuildOSPath w (fs_homepath w) filename [])) = Some d"
  shows "\<exists>w'. FS_SV_FOpenFileRead w filename = (Inr (int (length d), j), w')
          \<and> fsh w' = (fsh w)(j := (fsh w j)\<lparr>zipFile := qfalse, name := Q_strncpyz (MAX_ZPATH w) filename,
                 handleFiles_file := Suc (next_ptr w), handleSync := qfalse\<rparr>)
          \<and> files w' = files w \<and> fs_searchpaths w' = fs_searchpaths w
          \<and> MAX_FILE_HANDLES w' = MAX_FILE_HANDLES w \<and> MAX_OSPATH w' = MAX_OSPATH w
          \<and> fs_homepath w' = fs_homepath w \<and> fs_gamedir w' = fs_gamedir w"
proof -
  from FS_HandleForFile_range [OF h] have r: "1 \<le> j" "j < int (MAX_FILE_HANDLES w)" by auto
  show ?thesis
    using init h ex r
    by (simp add: FS_SV_FOpenFileRead_def Let_def set_slot_def emit_def
        native_fopen_def new_stream_def FS_filelength_def FS_FileForHandle_def native_ftell_def
        native_fseek_def file_data_def split: prod.splits)
qed

lemma open_all_fills:
  assumes "fs_searchpaths w \<noteq> []"
    and "\<forall>i. 1 \<le> i \<and> i \<le> k \<longrightarrow> handleFiles_file (fsh w (int i)) \<noteq> 0"
    and "\<forall>i. k < i \<and> i < MAX_FILE_HANDLES w \<longrightarrow> handleFiles_file (fsh w (int i)) = 0"
    and "k + length names < MAX_FILE_HANDLES w"
    and "\<forall>n \<in> set names. files w (butlast (FS_BuildOSPath w (fs_homepath w) n [])) \<noteq> None"
  shows "\<exists>w'. open_all w names = (Inr (map int [Suc k ..< Suc (k + length names)]), w')
           \<and> (\<forall>i. 1 \<le> i \<and> i \<le> k + length names \<longrightarrow> handleFiles_file (fsh w' (int i)) \<noteq> 0)
           \<and> fs_searchpaths w' = fs_searchpaths w \<and> MAX_FILE_HANDLES w' = MAX_FILE_HANDLES w"
  using assms
proof (induction names arbitrary: w k)
  case Nil
  then show ?case by simp
next
  case (Cons n ns)
  from Cons.prems have free: "FS_HandleForFile w = Inr (int (Suc k))"
    by (intro FS_HandleForFile_first) auto
  from Cons.prems obtain d where d: "files w (butlast (FS_BuildOSPath w (fs_homepath w) n [])) = Some d"
    by auto
  from FS_SV_FOpenFileRead_hit [OF Cons.prems(1) free d]
  obtain w1 where w1: "FS_SV_FOpenFileRead w n = (Inr (int (length d), int (Suc k)), w1)"
    and fsh1: "fsh w1 = (fsh w)(int (Suc k) := (fsh w (int (Suc k)))\<lparr>zipFile := qfalse,
                 name := Q_strncpyz (MAX_ZPATH w) n,
                 handleFiles_file := Suc (next_ptr w), handleSync := qfalse\<rparr>)"
    and same: "files w1 = files w" "fs_searchpaths w1 = fs_searchpaths w"
      "MAX_FILE_HANDLES w1 = MAX_FILE_HANDLES w" "MAX_OSPATH w1 = MAX_OSPATH w"
      "fs_homepath w1 = fs_homepath w" "fs_gamedir w1 = fs_gamedir w"
    by blast
  have path: "FS_BuildOSPath w1 = FS_BuildOSPath w"
    using same by (simp add: FS_BuildOSPath_def fun_eq_iff)
  have "\<exists>w'. open_all w1 ns = (Inr (map int [Suc (Suc k) ..< Suc (Suc k + length ns)]), w')
           \<and> (\<forall>i. 1 \<le> i \<and> i \<le> Suc k + length ns \<longrightarrow> handleFiles_file (fsh w' (int i)) \<noteq> 0)
           \<and> fs_searchpaths w' = fs_searchpaths w1 \<and> MAX_FILE_HANDLES w' = MAX_FILE_HANDLES w1"
  proof (rule Cons.IH)
    show "fs_searchpaths w1 \<noteq> []" using Cons.prems same by simp
    show "\<forall>i. 1 \<le> i \<and> i \<le> Suc k \<longrightarrow> handleFiles_file (fsh w1 (int i)) \<noteq> 0"
      using Cons.prems(2) by (auto simp: fsh1 le_Suc_eq)
    show "\<forall>i. Suc k < i \<and> i < MAX_FILE_HANDLES w1 \<longrightarrow> handleFiles_file (fsh w1 (int i)) = 0"
      using Cons.prems(3) by (auto simp: fsh1 same)
    show "Suc k + length ns < MAX_FILE_HANDLES w1" using Cons.prems(4) by (simp add: same)
    show "\<forall>n \<in> set ns. files w1 (butlast (FS_BuildOSPath w1 (fs_homepath w1) n [])) \<noteq> None"
      using Cons.prems(5) by (simp add: same path)
  qed
  then obtain w' where w': "open_all w1 ns = (Inr (map int [Suc (Suc k) ..< Suc (Suc k + length ns)]), w')"
    and rest: "\<forall>i. 1 \<le> i \<and> i \<le> Suc k + length ns \<longrightarrow> handleFiles_file (fsh w' (int i)) \<noteq> 0"
      "fs_searchpaths w' = fs_searchpaths w1" "MAX_FILE_HANDLES w' = MAX_FILE_HANDLES w1"
    by blast
  have "[Suc k ..< Suc (k + length (n # ns))] = Suc k # [Suc (Suc k) ..< Suc (Suc k + length ns)]"
    by (subst upt_rec) simp
  then show ?case
    using w1 w' rest same by simp
qed

lemma open_all_then_none_free:
  assumes "fs_searchpaths w \<noteq> []"
    and "\<forall>i. 1 \<le> i \<and> i < MAX_FILE_HANDLES w \<longrightarrow> handleFiles_file (fsh w (int i)) = 0"
    and "\<forall>n \<in> set names. files w (butlast (FS_BuildOSPath w (fs_homepath w) n [])) \<noteq> None"
    and "length names < MAX_FILE_HANDLES w"
  shows "fst (open_all w names) = Inr (map int [1 ..< Suc (length names)])
      \<and> (Suc (length names) = MAX_FILE_HANDLES w \<longrightarrow>
           FS_SV_FOpenFileRead (snd (open_all w names)) extra =
             (Inl (Com_Error ERR_DROP ''FS_HandleForFile: none free''), snd (open_all w names)))"
proof -
  from open_all_fills [of w 0 names] assms
  obtain w' where w': "open_all w names = (Inr (map int [Suc 0 ..< Suc (length names)]), w')"
    and full: "\<forall>i. 1 \<le> i \<and> i \<le> length names \<longrightarrow> handleFiles_file (fsh w' (int i)) \<noteq> 0"
    and same: "fs_searchpaths w' = fs_searchpaths w" "MAX_FILE_HANDLES w' = MAX_FILE_HANDLES w"
    by auto
  have "FS_SV_FOpenFileRead w' extra = (Inl (Com_Error ERR_DROP ''FS_HandleForFile: none free''), w')"
    if "Suc (length names) = MAX_FILE_HANDLES w"
  proof -
    have "FS_HandleForFile w' = Inl (Com_Error ERR_DROP ''FS_HandleForFile: none free'')"
      using full that same by (intro FS_HandleForFile_full) auto
    then show ?thesis using assms(1) same by (simp add: FS_SV_FOpenFileRead_def)
  qed
  then show ?thesis using w' by simp
qed

section \<open>The claims\<close>

subsection \<open>C1: paths that FS_CreatePath refuses\<close>

text \<open>
  C1, as amended.  For every OS path that contains \<^verbatim>\<open>..\<close> or \<^verbatim>\<open>::\<close>, \<^verbatim>\<open>FS_CreatePath\<close>
  calls \<^verbatim>\<open>Sys_Mkdir\<close> not once, raises no error, prints one warning and returns
  \<^verbatim>\<open>qtrue\<close>.  That value is its report of the refusal, not of success: for every
  other path it returns \<^verbatim>\<open>qfalse\<close>, and \<^verbatim>\<open>FS_SV_FOpenFileWrite\<close>, given \<^verbatim>\<open>qtrue\<close>,
  returns the handle 0 without a call of \<^verbatim>\<open>fopen\<close> (the log gains its prints only).
\<close>

theorem FS_CreatePath_refusal:
  "(sublist ''..'' OSPath \<or> sublist ''::'' OSPath \<longrightarrow>
      FS_CreatePath w OSPath =
        (qtrue, emit (Com_Printf ''WARNING: refusing to create relative path'' [OSPath]) w))
   \<and> (\<not> (sublist ''..'' OSPath \<or> sublist ''::'' OSPath) \<longrightarrow> fst (FS_CreatePath w OSPath) = qfalse)
   \<and> (fs_searchpaths w \<noteq> [] \<and> FS_HandleForFile w = Inr f
        \<and> (sublist ''..'' (butlast (FS_BuildOSPath w (fs_homepath w) filename []))
            \<or> sublist ''::'' (butlast (FS_BuildOSPath w (fs_homepath w) filename []))) \<longrightarrow>
      fst (FS_SV_FOpenFileWrite w filename) = Inr 0
      \<and> trace (snd (FS_SV_FOpenFileWrite w filename)) =
           trace w
           @ (if fs_debug w
              then [Com_Printf ''FS_SV_FOpenFileWrite:'' [butlast (FS_BuildOSPath w (fs_homepath w) filename [])]]
              else [])
           @ [Com_Printf ''WARNING: refusing to create relative path''
                [butlast (FS_BuildOSPath w (fs_homepath w) filename [])]])"
  using FS_CreatePath_refuses [of OSPath w] FS_CreatePath_accepts [of OSPath w]
    FS_SV_FOpenFileWrite_refused [of w f filename]
  by blast

text \<open>
  C1, witness: the theorem at the path \<^verbatim>\<open>/home/user/../x\<close>, at the path
  \<^verbatim>\<open>/home/user/a/x\<close> and at the file name \<^verbatim>\<open>../x\<close>, in the example configuration.
\<close>

theorem FS_CreatePath_refusal_witness:
  "FS_CreatePath example_world ''/home/user/../x'' =
     (qtrue, emit (Com_Printf ''WARNING: refusing to create relative path'' [''/home/user/../x''])
        example_world)
   \<and> fst (FS_CreatePath example_world ''/home/user/a/x'') = qfalse
   \<and> fst (FS_SV_FOpenFileWrite example_world ''../x'') = Inr 0"
proof -
  have a: "sublist ''..'' ''/home/user/../x''"
    by (simp add: sublist_strstr)
  have b: "\<not> (sublist ''..'' ''/home/user/a/x'' \<or> sublist ''::'' ''/home/user/a/x'')"
    by (simp add: sublist_strstr)
  have p: "butlast (FS_BuildOSPath example_world (fs_homepath example_world) ''../x'' []) = ''/home/user/../x''"
    by (simp add: FS_BuildOSPath_def example_world_def Com_sprintf_def FS_ReplaceSeparators_def PATH_SEP_def)
  have i: "fs_searchpaths example_world \<noteq> []"
    by (simp add: example_world_def)
  have h: "FS_HandleForFile example_world = Inr 1"
    by (rule FS_HandleForFile_first [of 1 example_world, simplified])
      (simp_all add: example_world_def empty_slot_def)
  from FS_CreatePath_refusal [of "''/home/user/../x''" example_world 1 "''../x''"]
    FS_CreatePath_refusal [of "''/home/user/a/x''" example_world 1 "''../x''"]
    a b p i h
  show ?thesis by simp
qed

text \<open>
  C1, counterexample to "reports success".  The refused path makes \<^verbatim>\<open>FS_CreatePath\<close>
  return \<^verbatim>\<open>qtrue\<close> where the accepted path returns \<^verbatim>\<open>qfalse\<close>; the open for writing of
  \<^verbatim>\<open>../x\<close> returns the handle 0 and nothing but the warning reaches the log, while the
  open of \<^verbatim>\<open>a/x\<close> returns the handle 1 after three \<^verbatim>\<open>mkdir\<close> calls and one \<^verbatim>\<open>fopen\<close>.
\<close>

theorem FS_CreatePath_refusal_counterexample:
  "fst (FS_CreatePath example_world ''/home/user/../x'') = qtrue
   \<and> fst (FS_CreatePath example_world ''/home/user/a/x'') = qfalse
   \<and> fst (FS_SV_FOpenFileWrite example_world ''../x'') = Inr 0
   \<and> trace (snd (FS_SV_FOpenFileWrite example_world ''../x'')) =
        [Com_Printf ''WARNING: refusing to create relative path'' [''/home/user/../x'']]
   \<and> fst (FS_SV_FOpenFileWrite example_world ''a/x'') = Inr 1
   \<and> trace (snd (FS_SV_FOpenFileWrite example_world ''a/x'')) =
        [Call_mkdir ''/home'', Call_mkdir ''/home/user'', Call_mkdir ''/home/user/a'',
         Call_fopen ''/home/user/a/x'' ''wb'']"
proof -
  have h: "FS_HandleForFile example_world = Inr 1"
    by (rule FS_HandleForFile_first [of 1 example_world, simplified])
      (simp_all add: example_world_def empty_slot_def)
  have p1: "butlast (FS_BuildOSPath example_world (fs_homepath example_world) ''../x'' []) = ''/home/user/../x''"
    by (simp add: FS_BuildOSPath_def example_world_def Com_sprintf_def FS_ReplaceSeparators_def PATH_SEP_def)
  have p2: "butlast (FS_BuildOSPath example_world (fs_homepath example_world) ''a/x'' []) = ''/home/user/a/x''"
    by (simp add: FS_BuildOSPath_def example_world_def Com_sprintf_def FS_ReplaceSeparators_def PATH_SEP_def)
  have i: "fs_searchpaths example_world \<noteq> []" "\<not> fs_debug example_world" "trace example_world = []"
      "writable example_world = (\<lambda>_. True)"
    by (simp_all add: example_world_def)
  have u: "[1 ..< 15] = [1, 2, 3, 4, 5, 6, 7, 8, 9, 10, 11, 12, 13, 14]"
    by (simp add: upt_rec)
  show ?thesis
    using h p1 p2 i
    by (simp add: FS_SV_FOpenFileWrite_def FS_CreatePath_def Let_def set_slot_def emit_def
        native_fopen_def new_stream_def Sys_Mkdir_snd PATH_SEP_def u)
qed


subsection \<open>C2: the names FS_VerifyPak accepts\<close>

lemma cmp_result_nonzero [simp]: "cmp_result a b \<noteq> 0"
  by (simp add: cmp_result_def)

lemma Q_stricmpn_zero_iff:
  "Q_stricmpn a b n = 0 \<longleftrightarrow>
     (if n < 0 then same_ignoring_case a b else same_ignoring_case (take (nat n) a) (take (nat n) b))"
proof (induction a b n rule: Q_stricmpn.induct)
  case (1 n)
  then show ?case by (simp add: same_ignoring_case_def)
next
  case (2 b bs n)
  then show ?case by (cases "nat n") (auto simp: same_ignoring_case_def)
next
  case (3 a as n)
  then show ?case by (cases "nat n") (auto simp: same_ignoring_case_def)
next
  case (4 a as b bs n)
  show ?case
  proof (cases "n = 0")
    case True
    then show ?thesis by (simp add: same_ignoring_case_def)
  next
    case False
    show ?thesis
    proof (cases "upcase (c_char a) = upcase (c_char b)")
      case same: True
      from False have "n < 0 \<or> 0 < n" by auto
      then show ?thesis
      proof
        assume "n < 0"
        with 4 False same show ?thesis by (simp add: same_ignoring_case_def)
      next
        assume pos: "0 < n"
        then obtain m where m: "nat n = Suc m" by (cases "nat n") auto
        then have "nat (n - 1) = m" by simp
        with 4 False same pos m show ?thesis by (simp add: same_ignoring_case_def)
      qed
    next
      case differ: False
      from False have "n < 0 \<or> 0 < n" by auto
      then show ?thesis
      proof
        assume "n < 0"
        with False differ show ?thesis by (simp add: same_ignoring_case_def)
      next
        assume pos: "0 < n"
        then obtain m where m: "nat n = Suc m" by (cases "nat n") auto
        with False differ pos show ?thesis by (simp add: same_ignoring_case_def)
      qed
    qed
  qed
qed

lemma same_ignoring_case_length: "same_ignoring_case a b \<Longrightarrow> length a = length b"
  unfolding same_ignoring_case_def by (rule map_eq_imp_length_eq)

lemma Q_stricmp_zero_iff:
  assumes "length a < 99999"
  shows "Q_stricmp a b = 0 \<longleftrightarrow> same_ignoring_case a b"
proof -
  have "same_ignoring_case a (take 99999 b) \<longleftrightarrow> same_ignoring_case a b"
  proof
    assume s: "same_ignoring_case a (take 99999 b)"
    from same_ignoring_case_length [OF s] assms have "min (length b) 99999 < 99999" by simp
    then have "take 99999 b = b" by simp
    with s show "same_ignoring_case a b" by simp
  next
    assume s: "same_ignoring_case a b"
    from same_ignoring_case_length [OF s] assms have "take 99999 b = b" by simp
    with s show "same_ignoring_case a (take 99999 b)" by simp
  qed
  with assms show ?thesis by (simp add: Q_stricmp_def Q_stricmpn_zero_iff)
qed

lemma Q_strcat_take: "Q_strcat n (take (n - 1) x) src = take (n - 1) (x @ src)"
  by (cases "length x \<le> n - 1") (auto simp: Q_strcat_def)

lemma pak_teststring_eq:
  "pak_teststring w p =
     take (BIG_INFO_STRING w - 1) (pakGamename p @ ''/'' @ pakBasename p @ ''.iwd'')"
  unfolding pak_teststring_def Q_strncpyz_def Q_strcat_take by simp

lemma FS_VerifyPak_search_iff:
  assumes "BIG_INFO_STRING w \<le> 99999"
  shows "FS_VerifyPak_search w sps pak \<longleftrightarrow>
     (\<exists>p. Some p \<in> set (map pack sps) \<and> same_ignoring_case (pak_teststring w p) pak)"
proof (induction sps)
  case Nil
  then show ?case by simp
next
  case (Cons sp sps)
  have len: "length (pak_teststring w p) < 99999" for p
    using assms by (simp add: pak_teststring_eq)
  show ?case
  proof (cases "pack sp")
    case None
    with Cons show ?thesis by simp
  next
    case (Some p)
    with Cons show ?thesis
      by (auto simp: Q_stricmp_zero_iff [OF len])
  qed
qed

text \<open>
  C2, as amended.  \<^verbatim>\<open>FS_VerifyPak\<close> compares with \<^verbatim>\<open>Q_stricmp\<close> and \<^verbatim>\<open>Q_stricmpn\<close>,
  which ignore the case of letters.  It returns true exactly when the name is, up to
  the case of letters, the string \<^verbatim>\<open>pakGamename/pakBasename.iwd\<close> of a pack of the search
  path list, or the string \<^verbatim>\<open>fs_game/mod.ff\<close> (either string cut to what the buffer of
  \<^verbatim>\<open>BIG_INFO_STRING\<close> bytes holds), or when its first nine characters are, up to the
  case of letters, \<^verbatim>\<open>usermaps/\<close> and it contains neither \<^verbatim>\<open>..\<close> nor \<^verbatim>\<open>;\<close>.  The
  buffer is taken to be no longer than the 99999 characters \<^verbatim>\<open>Q_stricmp\<close> looks at.
\<close>

theorem FS_VerifyPak_accepts:
  assumes "BIG_INFO_STRING w \<le> 99999"
  shows "FS_VerifyPak w pak \<longleftrightarrow>
     (\<exists>p. Some p \<in> set (map pack (fs_searchpaths w))
        \<and> same_ignoring_case
             (take (BIG_INFO_STRING w - 1) (pakGamename p @ ''/'' @ pakBasename p @ ''.iwd'')) pak)
     \<or> same_ignoring_case (take (BIG_INFO_STRING w - 1) (fs_game w @ ''/mod.ff'')) pak
     \<or> (same_ignoring_case ''usermaps/'' (take 9 pak)
          \<and> \<not> sublist ''..'' pak \<and> \<not> sublist '';'' pak)"
proof -
  have len: "length (Com_sprintf (BIG_INFO_STRING w) (fs_game w @ ''/mod.ff'')) < 99999"
    using assms by (simp add: Com_sprintf_def)
  have um: "Q_stricmpn ''usermaps/'' pak 9 = 0 \<longleftrightarrow> same_ignoring_case ''usermaps/'' (take 9 pak)"
    by (simp add: Q_stricmpn_zero_iff)
  have "FS_VerifyPak w pak \<longleftrightarrow>
     (\<exists>p. Some p \<in> set (map pack (fs_searchpaths w)) \<and> same_ignoring_case (pak_teststring w p) pak)
     \<or> same_ignoring_case (Com_sprintf (BIG_INFO_STRING w) (fs_game w @ ''/mod.ff'')) pak
     \<or> (same_ignoring_case ''usermaps/'' (take 9 pak)
          \<and> \<not> sublist ''..'' pak \<and> \<not> sublist '';'' pak)"
    unfolding FS_VerifyPak_def FS_VerifyPak_search_iff [OF assms] Q_stricmp_zero_iff [OF len] um
      strstr_None_iff
    by auto
  then show ?thesis
    by (simp only: pak_teststring_eq Com_sprintf_def)
qed

text \<open>
  C2, witness: with the pack \<^verbatim>\<open>main/iw_00.iwd\<close> mounted, that name is accepted and the
  name of a pack that is not mounted is refused.
\<close>

theorem FS_VerifyPak_accepts_witness:
  "FS_VerifyPak pack_world ''main/iw_00.iwd'' \<and> \<not> FS_VerifyPak pack_world ''main/iw_99.iwd''"
  using FS_VerifyPak_accepts [of pack_world "''main/iw_00.iwd''"]
    FS_VerifyPak_accepts [of pack_world "''main/iw_99.iwd''"]
  by (simp add: pack_world_def example_world_def same_ignoring_case_def upcase_def c_char_def
      sublist_strstr)

text \<open>
  C2, counterexample to "case-sensitively".  The only pack mounted is \<^verbatim>\<open>main/iw_00.iwd\<close>
  and \<^verbatim>\<open>fs_game\<close> is \<^verbatim>\<open>mods/test\<close>.  The name \<^verbatim>\<open>MAIN/IW_00.IWD\<close> is accepted although
  it is neither of the two strings and does not begin with \<^verbatim>\<open>usermaps/\<close>, and so is
  \<^verbatim>\<open>UserMaps/mp_x/mp_x.ff\<close>, which does not begin with \<^verbatim>\<open>usermaps/\<close> either.
\<close>

theorem FS_VerifyPak_accepts_counterexample:
  "FS_VerifyPak pack_world ''MAIN/IW_00.IWD''
   \<and> FS_VerifyPak pack_world ''UserMaps/mp_x/mp_x.ff''
   \<and> map pack (fs_searchpaths pack_world) =
       [Some \<lparr>pakGamename = ''main'', pakBasename = ''iw_00'', pak_handle = 7\<rparr>, None]
   \<and> fs_game pack_world = ''mods/test''
   \<and> ''MAIN/IW_00.IWD'' \<noteq> ''main/iw_00.iwd''
   \<and> ''MAIN/IW_00.IWD'' \<noteq> ''mods/test/mod.ff''
   \<and> \<not> prefix ''usermaps/'' ''MAIN/IW_00.IWD''
   \<and> \<not> prefix ''usermaps/'' ''UserMaps/mp_x/mp_x.ff''"
  by (simp add: FS_VerifyPak_def pack_world_def example_world_def pak_teststring_def Q_strcat_def
      Q_strncpyz_def Com_sprintf_def Q_stricmp_def upcase_def c_char_def cmp_result_def)

subsection \<open>C3: exhaustion of the handle table\<close>

text \<open>
  C3.  \<^verbatim>\<open>FS_HandleForFile\<close> hands out the indices \<open>1, ..., MAX_FILE_HANDLES - 1\<close>, so the
  capacity \<open>N\<close> of the pool is \<^verbatim>\<open>MAX_FILE_HANDLES - 1\<close>.  From an empty pool, opening
  files that exist under the home path one after the other succeeds with the handles
  \<open>1, 2, ...\<close> in this order as long as no more than \<open>N\<close> files are opened, and once \<open>N\<close>
  are open the next open raises \<^verbatim>\<open>FS_HandleForFile: none free\<close> and changes nothing.
\<close>

theorem handle_table_exhaustion:
  assumes "fs_searchpaths w \<noteq> []"
    and "MAX_FILE_HANDLES w = Suc N"
    and "\<forall>i. 1 \<le> i \<and> i \<le> N \<longrightarrow> handleFiles_file (fsh w (int i)) = 0"
    and "\<forall>n \<in> set names. files w (butlast (FS_BuildOSPath w (fs_homepath w) n [])) \<noteq> None"
    and "length names \<le> N"
  shows "fst (open_all w names) = Inr (map int [1 ..< Suc (length names)])
      \<and> (length names = N \<longrightarrow>
           FS_SV_FOpenFileRead (snd (open_all w names)) extra =
             (Inl (Com_Error ERR_DROP ''FS_HandleForFile: none free''), snd (open_all w names)))"
proof -
  have "\<forall>i. 1 \<le> i \<and> i < MAX_FILE_HANDLES w \<longrightarrow> handleFiles_file (fsh w (int i)) = 0"
    using assms(2,3) by simp
  moreover have "length names < MAX_FILE_HANDLES w"
    using assms(2,5) by simp
  ultimately show ?thesis
    using open_all_then_none_free [OF assms(1) _ assms(4), of extra] assms(2) by auto
qed

text \<open>
  C3, witness: a pool of capacity 64 (a table of 65 slots), 64 files opened with the
  handles 1 to 64, and the 65th open.
\<close>

theorem handle_table_exhaustion_witness:
  "fst (open_all pool_of_64_world (numbered_names 64)) = Inr (map int [1 ..< 65])
   \<and> FS_SV_FOpenFileRead (snd (open_all pool_of_64_world (numbered_names 64))) ''save.dat'' =
       (Inl (Com_Error ERR_DROP ''FS_HandleForFile: none free''),
        snd (open_all pool_of_64_world (numbered_names 64)))"
  using handle_table_exhaustion [of pool_of_64_world 64 "numbered_names 64" "''save.dat''"]
  by (simp add: pool_of_64_world_def full_disk_world_def example_world_def empty_slot_def
      numbered_names_def)

subsection \<open>C4: partial reads of a plain file\<close>

lemma native_fread_ok:
  assumes "streams w fp = Some s" and "\<forall>rest. schedule w \<noteq> Fail # rest"
  shows "\<exists>w'. native_fread w fp block =
            (Inr (int (length (take (transfer_limit w block) (drop (f_pos s) (file_data w (f_path s))))),
                  take (transfer_limit w block) (drop (f_pos s) (file_data w (f_path s)))), w')
          \<and> fsh w' = fsh w \<and> files w' = files w \<and> fs_searchpaths w' = fs_searchpaths w
          \<and> archives w' = archives w \<and> schedule w' = tl (schedule w)
          \<and> streams w' = (streams w)(fp \<mapsto> s\<lparr>f_pos := f_pos s
               + length (take (transfer_limit w block) (drop (f_pos s) (file_data w (f_path s))))\<rparr>)"
  using assms
  by (auto simp: native_fread_def Let_def emit_def split: list.splits native_event.splits)

lemma native_fread_fail:
  assumes "streams w fp = Some s" and "schedule w = Fail # rest"
  shows "\<exists>w'. native_fread w fp block = (Inr (-1, []), w')"
  using assms by (simp add: native_fread_def Let_def)

lemma file_data_cong: "files w' = files w \<Longrightarrow> file_data w' = file_data w"
  by (simp add: file_data_def fun_eq_iff)

lemma transfer_limit_le: "transfer_limit w block \<le> block"
  by (simp add: transfer_limit_def split: list.splits native_event.splits)

lemma transfer_limit_zero:
  "0 < block \<Longrightarrow> transfer_limit w block = 0 \<Longrightarrow> \<exists>rest. schedule w = Deliver 0 # rest"
  by (auto simp: transfer_limit_def split: list.splits native_event.splits)

lemma FS_Read_loop_complete:
  assumes "streams w (handleFiles_file (fsh w f)) = Some s"
    and "Fail \<notin> set (schedule w)"
    and "if tries then Deliver 0 \<notin> set (schedule w) else count_list (schedule w) (Deliver 0) \<le> 1"
    and "f_pos s + remaining \<le> length (file_data w (f_path s))"
  shows "\<exists>w'. FS_Read_loop w f len remaining tries buf =
            (Inr (int len, buf @ take remaining (drop (f_pos s) (file_data w (f_path s)))), w')
          \<and> fsh w' = fsh w \<and> files w' = files w \<and> fs_searchpaths w' = fs_searchpaths w
          \<and> archives w' = archives w
          \<and> streams w' = (streams w)(handleFiles_file (fsh w f) \<mapsto> s\<lparr>f_pos := f_pos s + remaining\<rparr>)"
  using assms
proof (induction w f len remaining tries buf arbitrary: s rule: FS_Read_loop.induct)
  case (1 w f len remaining tries buf)
  let ?fp = "handleFiles_file (fsh w f)"
  let ?data = "file_data w (f_path s)"
  show ?case
  proof (cases "remaining = 0")
    case True
    have "(streams w)(?fp \<mapsto> s\<lparr>f_pos := f_pos s + 0\<rparr>) = streams w"
      using "1.prems"(1) by (auto simp: fun_eq_iff)
    with True show ?thesis
      by (subst FS_Read_loop.simps) simp
  next
    case False
    let ?lim = "transfer_limit w remaining"
    let ?got = "take ?lim (drop (f_pos s) ?data)"
    have nofail: "\<forall>rest. schedule w \<noteq> Fail # rest"
      using "1.prems"(2) by auto
    have lim: "?lim \<le> remaining" by (rule transfer_limit_le)
    then have lgot: "length ?got = ?lim"
      using "1.prems"(4) by simp
    from native_fread_ok [OF "1.prems"(1) nofail, of remaining]
    obtain w' where rd: "native_fread w ?fp remaining = (Inr (int ?lim, ?got), w')"
      and frame: "fsh w' = fsh w" "files w' = files w" "fs_searchpaths w' = fs_searchpaths w"
        "archives w' = archives w" "schedule w' = tl (schedule w)"
      and str: "streams w' = (streams w)(?fp \<mapsto> s\<lparr>f_pos := f_pos s + ?lim\<rparr>)"
      unfolding lgot by blast
    have stall: "\<not> (int ?lim = 0 \<and> tries)"
    proof
      assume a: "int ?lim = 0 \<and> tries"
      with False transfer_limit_zero [of remaining w] obtain rest where "schedule w = Deliver 0 # rest"
        by auto
      with a "1.prems"(3) show False by simp
    qed
    have sched': "Fail \<notin> set (schedule w')"
      using "1.prems"(2) frame(5) by (cases "schedule w") auto
    have tries': "if tries \<or> int ?lim = 0 then Deliver 0 \<notin> set (schedule w')
                  else count_list (schedule w') (Deliver 0) \<le> 1"
    proof (cases "?lim = 0")
      case True
      with False transfer_limit_zero [of remaining w] obtain rest where r: "schedule w = Deliver 0 # rest"
        by auto
      with stall True have "\<not> tries" by simp
      with "1.prems"(3) r have "count_list rest (Deliver 0) = 0" by simp
      then have "Deliver 0 \<notin> set rest" by (simp add: count_list_0_iff)
      with True r frame(5) show ?thesis by simp
    next
      case False
      then show ?thesis
        using "1.prems"(3) frame(5) by (cases "schedule w") (auto split: if_splits)
    qed
    let ?s' = "s\<lparr>f_pos := f_pos s + ?lim\<rparr>"
    have st': "streams w' (handleFiles_file (fsh w' f)) = Some ?s'"
      by (simp add: str frame)
    have enough': "f_pos ?s' + (remaining - nat (int ?lim)) \<le> length (file_data w' (f_path ?s'))"
      using "1.prems"(4) lim by (simp add: file_data_cong [OF frame(2)])
    have bytes: "?got @ take (remaining - ?lim) (drop (f_pos s + ?lim) ?data) = take remaining (drop (f_pos s) ?data)"
    proof -
      have "take remaining (drop (f_pos s) ?data) = take (?lim + (remaining - ?lim)) (drop (f_pos s) ?data)"
        using lim by simp
      also have "\<dots> = ?got @ take (remaining - ?lim) (drop ?lim (drop (f_pos s) ?data))"
        by (rule take_add)
      finally show ?thesis by (simp add: add.commute)
    qed
    have pos: "f_pos s + ?lim + (remaining - ?lim) = f_pos s + remaining"
      using lim by simp
    have step: "FS_Read_loop w f len remaining tries buf =
        FS_Read_loop w' f len (remaining - nat (int ?lim)) (tries \<or> int ?lim = 0) (buf @ ?got)"
      using False rd stall by (subst FS_Read_loop.simps) auto
    from "1.IH" [OF False rd [symmetric] refl refl stall _ st' sched' tries' enough']
    show ?thesis
      unfolding step
      by (auto simp: file_data_cong [OF frame(2)] frame str bytes pos fun_eq_iff)
  qed
qed


lemma FS_Read_loop_steps:
  assumes "streams w (handleFiles_file (fsh w f)) = Some s"
    and "schedule w = map Deliver ns @ rest"
    and "if tries then 0 \<notin> set ns else count_list ns 0 \<le> 1"
    and "sum_list ns < remaining"
    and "f_pos s + sum_list ns \<le> length (file_data w (f_path s))"
  shows "\<exists>w'. FS_Read_loop w f len remaining tries buf =
            FS_Read_loop w' f len (remaining - sum_list ns) (tries \<or> 0 \<in> set ns)
              (buf @ take (sum_list ns) (drop (f_pos s) (file_data w (f_path s))))
          \<and> fsh w' = fsh w \<and> files w' = files w \<and> schedule w' = rest
          \<and> streams w' = (streams w)(handleFiles_file (fsh w f) \<mapsto> s\<lparr>f_pos := f_pos s + sum_list ns\<rparr>)"
  using assms
proof (induction ns arbitrary: w s remaining tries buf)
  case Nil
  have "(streams w)(handleFiles_file (fsh w f) \<mapsto> s\<lparr>f_pos := f_pos s + 0\<rparr>) = streams w"
    using Nil.prems(1) by (auto simp: fun_eq_iff)
  with Nil.prems show ?case by auto
next
  case (Cons n ns)
  let ?fp = "handleFiles_file (fsh w f)"
  let ?data = "file_data w (f_path s)"
  let ?got = "take n (drop (f_pos s) ?data)"
  have nofail: "\<forall>rest. schedule w \<noteq> Fail # rest"
    using Cons.prems(2) by auto
  have lim: "transfer_limit w remaining = n"
    using Cons.prems(2,4) by (simp add: transfer_limit_def)
  have lgot: "length ?got = n"
    using Cons.prems(5) by simp
  from native_fread_ok [OF Cons.prems(1) nofail, of remaining]
  obtain w1 where rd: "native_fread w ?fp remaining = (Inr (int n, ?got), w1)"
    and frame: "fsh w1 = fsh w" "files w1 = files w" "schedule w1 = tl (schedule w)"
    and str: "streams w1 = (streams w)(?fp \<mapsto> s\<lparr>f_pos := f_pos s + n\<rparr>)"
    unfolding lim lgot by blast
  have stall: "\<not> (int n = 0 \<and> tries)"
    using Cons.prems(3) by auto
  have step: "FS_Read_loop w f len remaining tries buf =
      FS_Read_loop w1 f len (remaining - n) (tries \<or> n = 0) (buf @ ?got)"
    using Cons.prems(4) rd stall by (subst FS_Read_loop.simps) auto
  let ?s1 = "s\<lparr>f_pos := f_pos s + n\<rparr>"
  have st1: "streams w1 (handleFiles_file (fsh w1 f)) = Some ?s1"
    by (simp add: str frame)
  have sched1: "schedule w1 = map Deliver ns @ rest"
    using Cons.prems(2) frame by simp
  have tries1: "if tries \<or> n = 0 then 0 \<notin> set ns else count_list ns 0 \<le> 1"
    using Cons.prems(3) by (auto simp: count_list_0_iff split: if_splits)
  have sum1: "sum_list ns < remaining - n"
    using Cons.prems(4) by simp
  have enough1: "f_pos ?s1 + sum_list ns \<le> length (file_data w1 (f_path ?s1))"
    using Cons.prems(5) by (simp add: file_data_cong [OF frame(2)])
  have bytes: "?got @ take (sum_list ns) (drop (f_pos s + n) ?data) =
      take (n + sum_list ns) (drop (f_pos s) ?data)"
    by (simp add: take_add add.commute)
  have tr: "((tries \<or> n = 0) \<or> 0 \<in> set ns) = (tries \<or> 0 \<in> set (n # ns))"
    by auto
  from Cons.IH [OF st1 sched1 tries1 sum1 enough1, of "buf @ ?got"]
  show ?case
    unfolding step tr
    by (auto simp: file_data_cong [OF frame(2)] frame str bytes fun_eq_iff add.assoc)
qed

lemma FS_Read_second_stall:
  assumes "fs_searchpaths w \<noteq> []" and "f \<noteq> 0" and "zipFile (fsh w f) = qfalse"
    and "streams w (handleFiles_file (fsh w f)) = Some s"
    and "schedule w = map Deliver ns @ Deliver 0 # rest"
    and "count_list ns 0 = 1"
    and "sum_list ns < len"
    and "f_pos s + sum_list ns \<le> length (file_data w (f_path s))"
  shows "fst (FS_Read w len f) =
           Inr (int (sum_list ns), take (sum_list ns) (drop (f_pos s) (file_data w (f_path s))))"
proof -
  have c: "if False then 0 \<notin> set ns else count_list ns 0 \<le> 1"
    using assms(6) by simp
  have z: "0 \<in> set ns"
    using assms(6) count_list_0_iff [of ns 0] by auto
  from FS_Read_loop_steps [OF assms(4) assms(5) c assms(7) assms(8), of len "[]"]
  obtain w' where steps: "FS_Read_loop w f len len False [] =
            FS_Read_loop w' f len (len - sum_list ns) True
              (take (sum_list ns) (drop (f_pos s) (file_data w (f_path s))))"
    and frame: "fsh w' = fsh w" "files w' = files w" "schedule w' = Deliver 0 # rest"
    and str: "streams w' = (streams w)(handleFiles_file (fsh w f) \<mapsto> s\<lparr>f_pos := f_pos s + sum_list ns\<rparr>)"
    using z by auto
  have st': "streams w' (handleFiles_file (fsh w' f)) = Some (s\<lparr>f_pos := f_pos s + sum_list ns\<rparr>)"
    by (simp add: str frame)
  have nofail: "\<forall>rest. schedule w' \<noteq> Fail # rest"
    using frame by simp
  have lim: "transfer_limit w' (len - sum_list ns) = 0"
    using frame by (simp add: transfer_limit_def)
  from native_fread_ok [OF st' nofail, of "len - sum_list ns"]
  obtain w'' where rd: "native_fread w' (handleFiles_file (fsh w' f)) (len - sum_list ns) = (Inr (0, []), w'')"
    unfolding lim by auto
  have "FS_Read_loop w' f len (len - sum_list ns) True
          (take (sum_list ns) (drop (f_pos s) (file_data w (f_path s)))) =
        (Inr (int len - int (len - sum_list ns),
              take (sum_list ns) (drop (f_pos s) (file_data w (f_path s)))), w'')"
    using assms(7) rd by (subst FS_Read_loop.simps) simp
  with steps assms(1,2,3,7) show ?thesis
    by (simp add: FS_Read_def)
qed

lemma FS_Read_native_error:
  assumes "fs_searchpaths w \<noteq> []" and "f \<noteq> 0" and "zipFile (fsh w f) = qfalse"
    and "streams w (handleFiles_file (fsh w f)) = Some s"
    and "schedule w = map Deliver ns @ Fail # rest"
    and "count_list ns 0 \<le> 1"
    and "sum_list ns < len"
    and "f_pos s + sum_list ns \<le> length (file_data w (f_path s))"
  shows "fst (FS_Read w len f) = Inl (Com_Error ERR_FATAL ''FS_Read: -1 bytes read'')"
proof -
  have c: "if False then 0 \<notin> set ns else count_list ns 0 \<le> 1"
    using assms(6) by simp
  from FS_Read_loop_steps [OF assms(4) assms(5) c assms(7) assms(8), of len "[]"]
  obtain w' where steps: "FS_Read_loop w f len len False [] =
            FS_Read_loop w' f len (len - sum_list ns) (0 \<in> set ns)
              (take (sum_list ns) (drop (f_pos s) (file_data w (f_path s))))"
    and frame: "fsh w' = fsh w" "files w' = files w" "schedule w' = Fail # rest"
    and str: "streams w' = (streams w)(handleFiles_file (fsh w f) \<mapsto> s\<lparr>f_pos := f_pos s + sum_list ns\<rparr>)"
    by auto
  have st': "streams w' (handleFiles_file (fsh w' f)) = Some (s\<lparr>f_pos := f_pos s + sum_list ns\<rparr>)"
    by (simp add: str frame)
  from native_fread_fail [OF st' frame(3), of "len - sum_list ns"]
  obtain w'' where rd: "native_fread w' (handleFiles_file (fsh w' f)) (len - sum_list ns) = (Inr (-1, []), w'')"
    by auto
  have "FS_Read_loop w' f len (len - sum_list ns) (0 \<in> set ns)
          (take (sum_list ns) (drop (f_pos s) (file_data w (f_path s)))) =
        (Inl (Com_Error ERR_FATAL ''FS_Read: -1 bytes read''), w'')"
    using assms(7) rd by (subst FS_Read_loop.simps) simp
  with steps assms(1,2,3) show ?thesis
    by (simp add: FS_Read_def)
qed

lemma FS_Read_complete:
  assumes "fs_searchpaths w \<noteq> []" and "f \<noteq> 0" and "zipFile (fsh w f) = qfalse"
    and "streams w (handleFiles_file (fsh w f)) = Some s"
    and "Fail \<notin> set (schedule w)"
    and "count_list (schedule w) (Deliver 0) \<le> 1"
    and "f_pos s + len \<le> length (file_data w (f_path s))"
  shows "fst (FS_Read w len f) = Inr (int len, take len (drop (f_pos s) (file_data w (f_path s))))"
proof -
  have c: "if False then Deliver 0 \<notin> set (schedule w) else count_list (schedule w) (Deliver 0) \<le> 1"
    using assms(6) by simp
  from FS_Read_loop_complete [OF assms(4) assms(5) c assms(7), of len "[]"] assms(1,2,3)
  show ?thesis by (auto simp: FS_Read_def)
qed

text \<open>
  C4.  Take an initialised filesystem and a handle, not 0, on a plain file whose stream
  is open.  (1) If the device reports no error, delivers zero bytes at most once, and
  the file holds \<open>len\<close> more bytes, \<^verbatim>\<open>FS_Read\<close> returns \<open>len\<close> with these bytes in
  the buffer.  (2) If one zero-byte read was tolerated among the partial reads \<open>ns\<close> and
  the next read delivers zero bytes again, \<^verbatim>\<open>FS_Read\<close> returns, as a normal result,
  the count of the bytes obtained so far, which are in the buffer.  (3) If the device
  reports the error code -1 before the transfer is complete, \<^verbatim>\<open>FS_Read\<close> raises the
  fatal error "FS_Read: -1 bytes read".
\<close>

theorem FS_Read_plain_file:
  assumes "fs_searchpaths w \<noteq> []" and "f \<noteq> 0" and "zipFile (fsh w f) = qfalse"
    and "streams w (handleFiles_file (fsh w f)) = Some s"
  shows
    "(Fail \<notin> set (schedule w) \<and> count_list (schedule w) (Deliver 0) \<le> 1
        \<and> f_pos s + len \<le> length (file_data w (f_path s)) \<longrightarrow>
      fst (FS_Read w len f) = Inr (int len, take len (drop (f_pos s) (file_data w (f_path s)))))
   \<and> (schedule w = map Deliver ns @ Deliver 0 # rest \<and> count_list ns 0 = 1 \<and> sum_list ns < len
        \<and> f_pos s + sum_list ns \<le> length (file_data w (f_path s)) \<longrightarrow>
      fst (FS_Read w len f) =
        Inr (int (sum_list ns), take (sum_list ns) (drop (f_pos s) (file_data w (f_path s)))))
   \<and> (schedule w = map Deliver ns @ Fail # rest \<and> count_list ns 0 \<le> 1 \<and> sum_list ns < len
        \<and> f_pos s + sum_list ns \<le> length (file_data w (f_path s)) \<longrightarrow>
      fst (FS_Read w len f) = Inl (Com_Error ERR_FATAL ''FS_Read: -1 bytes read''))"
  using FS_Read_complete [OF assms] FS_Read_second_stall [OF assms] FS_Read_native_error [OF assms]
  by blast

text \<open>
  C4, witness: a file of eight bytes and a request for eight.  With the deliveries
  3, 0, 5 the read returns 8 and all the bytes; with 3, 0, 0 it returns 3 and the
  first three bytes; with 3 and then the error code it raises the fatal error.
\<close>

theorem FS_Read_plain_file_witness:
  "fst (FS_Read (reading_world [Deliver 3, Deliver 0, Deliver 5]) 8 1) =
     Inr (8, [10, 20, 30, 40, 50, 60, 70, 80])
   \<and> fst (FS_Read (reading_world [Deliver 3, Deliver 0, Deliver 0]) 8 1) = Inr (3, [10, 20, 30])
   \<and> fst (FS_Read (reading_world [Deliver 3, Fail]) 8 1) =
       Inl (Com_Error ERR_FATAL ''FS_Read: -1 bytes read'')"
proof -
  let ?s = "\<lparr>f_path = ''/home/user/main/data.bin'', f_pos = 0, f_append = False\<rparr>"
  have pre: "fs_searchpaths (reading_world sched) \<noteq> []" "(1::int) \<noteq> 0"
    "zipFile (fsh (reading_world sched) 1) = qfalse"
    "streams (reading_world sched) (handleFiles_file (fsh (reading_world sched) 1)) = Some ?s"
    for sched
    by (simp_all add: reading_world_def example_world_def empty_slot_def)
  have data: "file_data (reading_world sched) ''/home/user/main/data.bin'' =
      [10, 20, 30, 40, 50, 60, 70, 80]" for sched
    by (simp add: reading_world_def file_data_def)
  have sched: "schedule (reading_world sched) = sched" for sched
    by (simp add: reading_world_def)
  have a: "fst (FS_Read (reading_world [Deliver 3, Deliver 0, Deliver 5]) 8 1) =
     Inr (8, [10, 20, 30, 40, 50, 60, 70, 80])"
    using FS_Read_plain_file [OF pre, of "[Deliver 3, Deliver 0, Deliver 5]" 8 "[]" "[]"]
    by (simp add: data sched)
  have b: "fst (FS_Read (reading_world [Deliver 3, Deliver 0, Deliver 0]) 8 1) = Inr (3, [10, 20, 30])"
    using FS_Read_plain_file [OF pre, of "[Deliver 3, Deliver 0, Deliver 0]" 8 "[3, 0]" "[]"]
    by (simp add: data sched)
  have c: "fst (FS_Read (reading_world [Deliver 3, Fail]) 8 1) =
       Inl (Com_Error ERR_FATAL ''FS_Read: -1 bytes read'')"
    using FS_Read_plain_file [OF pre, of "[Deliver 3, Fail]" 8 "[3]" "[]"]
    by (simp add: data sched)
  from a b c show ?thesis by simp
qed


subsection \<open>C5: partial writes\<close>

lemma flushes_append [simp]: "flushes (a @ b) = flushes a @ flushes b"
  by (simp add: flushes_def)

lemma flushes_simps [simp]:
  "flushes [] = []"
  "flushes (Call_fwrite p n # evs) = flushes evs"
  "flushes (Com_Printf m args # evs) = flushes evs"
  "flushes (Call_fflush p # evs) = p # flushes evs"
  by (simp_all add: flushes_def)

lemma native_fwrite_ok:
  assumes "streams w fp = Some s" and "\<forall>rest. schedule w \<noteq> Fail # rest"
  shows "\<exists>w' s'. native_fwrite w fp buf = (Inr (int (length (take (transfer_limit w (length buf)) buf))), w')
          \<and> fsh w' = fsh w \<and> fs_searchpaths w' = fs_searchpaths w
          \<and> schedule w' = tl (schedule w) \<and> streams w' fp = Some s'
          \<and> trace w' = trace w @ [Call_fwrite fp (length buf)]"
  using assms
  by (auto simp: native_fwrite_def Let_def emit_def split: list.splits native_event.splits)

lemma native_fwrite_fail:
  assumes "streams w fp = Some s" and "schedule w = Fail # rest"
  shows "\<exists>w'. native_fwrite w fp buf = (Inr (-1), w')
           \<and> fsh w' = fsh w \<and> trace w' = trace w @ [Call_fwrite fp (length buf)]"
  using assms by (simp add: native_fwrite_def Let_def emit_def)

lemma FS_Write_loop_complete:
  assumes "streams w fp = Some s"
    and "Fail \<notin> set (schedule w)"
    and "if tries then Deliver 0 \<notin> set (schedule w) else count_list (schedule w) (Deliver 0) \<le> 1"
  shows "\<exists>w'. FS_Write_loop w fp buf tries = (Inr True, w')
          \<and> fsh w' = fsh w \<and> flushes (trace w') = flushes (trace w)"
  using assms
proof (induction w fp buf tries arbitrary: s rule: FS_Write_loop.induct)
  case (1 w fp buf tries)
  show ?case
  proof (cases "length buf = 0")
    case True
    then show ?thesis by (subst FS_Write_loop.simps) simp
  next
    case False
    let ?lim = "transfer_limit w (length buf)"
    have nofail: "\<forall>rest. schedule w \<noteq> Fail # rest"
      using "1.prems"(2) by auto
    have lim: "?lim \<le> length buf" by (rule transfer_limit_le)
    then have lchunk: "length (take ?lim buf) = ?lim" by simp
    from native_fwrite_ok [OF "1.prems"(1) nofail, of buf]
    obtain w' s' where wr: "native_fwrite w fp buf = (Inr (int ?lim), w')"
      and frame: "fsh w' = fsh w" "schedule w' = tl (schedule w)"
        "trace w' = trace w @ [Call_fwrite fp (length buf)]"
      and st': "streams w' fp = Some s'"
      unfolding lchunk by blast
    have stall: "\<not> (int ?lim = 0 \<and> tries)"
    proof
      assume a: "int ?lim = 0 \<and> tries"
      with False transfer_limit_zero [of "length buf" w] obtain rest where "schedule w = Deliver 0 # rest"
        by auto
      with a "1.prems"(3) show False by simp
    qed
    have sched': "Fail \<notin> set (schedule w')"
      using "1.prems"(2) frame(2) by (cases "schedule w") auto
    have tries': "if tries \<or> int ?lim = 0 then Deliver 0 \<notin> set (schedule w')
                  else count_list (schedule w') (Deliver 0) \<le> 1"
    proof (cases "?lim = 0")
      case True
      with False transfer_limit_zero [of "length buf" w] obtain rest where r: "schedule w = Deliver 0 # rest"
        by auto
      with stall True have "\<not> tries" by simp
      with "1.prems"(3) r have "count_list rest (Deliver 0) = 0" by simp
      then have "Deliver 0 \<notin> set rest" by (simp add: count_list_0_iff)
      with True r frame(2) show ?thesis by simp
    next
      case False
      then show ?thesis
        using "1.prems"(3) frame(2) by (cases "schedule w") (auto split: if_splits)
    qed
    have step: "FS_Write_loop w fp buf tries =
        FS_Write_loop w' fp (drop (nat (int ?lim)) buf) (tries \<or> int ?lim = 0)"
      using False wr stall by (subst FS_Write_loop.simps) auto
    from "1.IH" [OF False wr [symmetric] refl stall _ st' sched' tries']
    show ?thesis
      unfolding step by (auto simp: frame)
  qed
qed

lemma FS_Write_loop_steps:
  assumes "streams w fp = Some s"
    and "schedule w = map Deliver ns @ rest"
    and "if tries then 0 \<notin> set ns else count_list ns 0 \<le> 1"
    and "sum_list ns < length buf"
  shows "\<exists>w' s'. FS_Write_loop w fp buf tries =
            FS_Write_loop w' fp (drop (sum_list ns) buf) (tries \<or> 0 \<in> set ns)
          \<and> fsh w' = fsh w \<and> schedule w' = rest \<and> streams w' fp = Some s'
          \<and> flushes (trace w') = flushes (trace w)"
  using assms
proof (induction ns arbitrary: w s tries buf)
  case Nil
  then show ?case by auto
next
  case (Cons n ns)
  have nofail: "\<forall>rest. schedule w \<noteq> Fail # rest"
    using Cons.prems(2) by auto
  have lim: "transfer_limit w (length buf) = n"
    using Cons.prems(2,4) by (simp add: transfer_limit_def)
  have lchunk: "length (take n buf) = n"
    using Cons.prems(4) by simp
  from native_fwrite_ok [OF Cons.prems(1) nofail, of buf]
  obtain w1 s1 where wr: "native_fwrite w fp buf = (Inr (int n), w1)"
    and frame: "fsh w1 = fsh w" "schedule w1 = tl (schedule w)"
      "trace w1 = trace w @ [Call_fwrite fp (length buf)]"
    and st1: "streams w1 fp = Some s1"
    unfolding lim lchunk by blast
  have stall: "\<not> (int n = 0 \<and> tries)"
    using Cons.prems(3) by auto
  have nonempty: "length buf \<noteq> 0"
    using Cons.prems(4) by auto
  have step: "FS_Write_loop w fp buf tries = FS_Write_loop w1 fp (drop n buf) (tries \<or> n = 0)"
    using nonempty wr stall by (subst FS_Write_loop.simps) auto
  have sched1: "schedule w1 = map Deliver ns @ rest"
    using Cons.prems(2) frame by simp
  have tries1: "if tries \<or> n = 0 then 0 \<notin> set ns else count_list ns 0 \<le> 1"
    using Cons.prems(3) by (auto simp: count_list_0_iff split: if_splits)
  have sum1: "sum_list ns < length (drop n buf)"
    using Cons.prems(4) by simp
  have tr: "((tries \<or> n = 0) \<or> 0 \<in> set ns) = (tries \<or> 0 \<in> set (n # ns))"
    by auto
  from Cons.IH [OF st1 sched1 tries1 sum1]
  show ?case
    unfolding step tr
    by (auto simp: frame add.commute)
qed


lemma FS_Write_complete:
  assumes "fs_searchpaths w \<noteq> []" and "h \<noteq> 0" and "FS_FileForHandle w h = Inr fp"
    and "streams w fp = Some s"
    and "Fail \<notin> set (schedule w)"
    and "count_list (schedule w) (Deliver 0) \<le> 1"
  shows "fst (FS_Write w buffer h) = Inr (int (length buffer))
       \<and> flushes (trace (snd (FS_Write w buffer h))) =
           flushes (trace w) @ (if handleSync (fsh w h) then [fp] else [])"
proof -
  have c: "if False then Deliver 0 \<notin> set (schedule w) else count_list (schedule w) (Deliver 0) \<le> 1"
    using assms(6) by simp
  from FS_Write_loop_complete [OF assms(4) assms(5) c, of buffer] assms(1,2,3)
  show ?thesis by (auto simp: FS_Write_def native_fflush_def emit_def)
qed

lemma FS_Write_second_stall:
  assumes "fs_searchpaths w \<noteq> []" and "h \<noteq> 0" and "FS_FileForHandle w h = Inr fp"
    and "streams w fp = Some s"
    and "schedule w = map Deliver ns @ Deliver 0 # rest"
    and "count_list ns 0 = 1"
    and "sum_list ns < length buffer"
  shows "fst (FS_Write w buffer h) = Inr 0
       \<and> last (trace (snd (FS_Write w buffer h))) = Com_Printf ''FS_Write: 0 bytes written'' []
       \<and> flushes (trace (snd (FS_Write w buffer h))) = flushes (trace w)"
proof -
  have c: "if False then 0 \<notin> set ns else count_list ns 0 \<le> 1"
    using assms(6) by simp
  have z: "0 \<in> set ns"
    using assms(6) count_list_0_iff [of ns 0] by auto
  from FS_Write_loop_steps [OF assms(4) assms(5) c assms(7)]
  obtain w' s' where steps: "FS_Write_loop w fp buffer False =
            FS_Write_loop w' fp (drop (sum_list ns) buffer) True"
    and frame: "fsh w' = fsh w" "schedule w' = Deliver 0 # rest"
      "flushes (trace w') = flushes (trace w)"
    and st': "streams w' fp = Some s'"
    using z by auto
  have nofail: "\<forall>rest. schedule w' \<noteq> Fail # rest"
    using frame by simp
  have lim: "transfer_limit w' (length (drop (sum_list ns) buffer)) = 0"
    using frame by (simp add: transfer_limit_def)
  from native_fwrite_ok [OF st' nofail, of "drop (sum_list ns) buffer"]
  obtain w'' where wr: "native_fwrite w' fp (drop (sum_list ns) buffer) = (Inr 0, w'')"
    and tr: "trace w'' = trace w' @ [Call_fwrite fp (length (drop (sum_list ns) buffer))]"
    unfolding lim by auto
  have "FS_Write_loop w' fp (drop (sum_list ns) buffer) True =
        (Inr False, emit (Com_Printf ''FS_Write: 0 bytes written'' []) w'')"
    using assms(7) wr by (subst FS_Write_loop.simps) simp
  with steps assms(1,2,3) tr frame show ?thesis
    by (simp add: FS_Write_def emit_def)
qed

lemma FS_Write_native_error:
  assumes "fs_searchpaths w \<noteq> []" and "h \<noteq> 0" and "FS_FileForHandle w h = Inr fp"
    and "streams w fp = Some s"
    and "schedule w = map Deliver ns @ Fail # rest"
    and "count_list ns 0 \<le> 1"
    and "sum_list ns < length buffer"
  shows "fst (FS_Write w buffer h) = Inr 0
       \<and> last (trace (snd (FS_Write w buffer h))) = Com_Printf ''FS_Write: -1 bytes written'' []
       \<and> flushes (trace (snd (FS_Write w buffer h))) = flushes (trace w)"
proof -
  have c: "if False then 0 \<notin> set ns else count_list ns 0 \<le> 1"
    using assms(6) by simp
  from FS_Write_loop_steps [OF assms(4) assms(5) c assms(7)]
  obtain w' s' where steps: "FS_Write_loop w fp buffer False =
            FS_Write_loop w' fp (drop (sum_list ns) buffer) (0 \<in> set ns)"
    and frame: "fsh w' = fsh w" "schedule w' = Fail # rest"
      "flushes (trace w') = flushes (trace w)"
    and st': "streams w' fp = Some s'"
    by auto
  from native_fwrite_fail [OF st' frame(2), of "drop (sum_list ns) buffer"]
  obtain w'' where wr: "native_fwrite w' fp (drop (sum_list ns) buffer) = (Inr (-1), w'')"
    and tr: "trace w'' = trace w' @ [Call_fwrite fp (length (drop (sum_list ns) buffer))]"
    by auto
  have "FS_Write_loop w' fp (drop (sum_list ns) buffer) (0 \<in> set ns) =
        (Inr False, emit (Com_Printf ''FS_Write: -1 bytes written'' []) w'')"
    using assms(7) wr by (subst FS_Write_loop.simps) simp
  with steps assms(1,2,3) tr frame show ?thesis
    by (simp add: FS_Write_def emit_def)
qed

text \<open>
  C5, as amended.  Take an initialised filesystem and a handle, not 0, whose stream is
  open.  (1) If the device reports no error and accepts zero bytes at most once,
  \<^verbatim>\<open>FS_Write\<close> returns the length of the buffer and, exactly when the sync flag of
  the handle is set, flushes the stream after the write.  (2) If one zero-byte write
  was tolerated among the partial writes \<open>ns\<close> and the next write accepts zero bytes
  again, \<^verbatim>\<open>FS_Write\<close> prints "FS_Write: 0 bytes written" and returns 0, whatever was
  written before; (3) if the device reports the error code -1, it prints
  "FS_Write: -1 bytes written" and returns 0.  In (2) and (3) no error is raised and
  no flush is made, whatever the sync flag.
\<close>

theorem FS_Write_outcomes:
  assumes "fs_searchpaths w \<noteq> []" and "h \<noteq> 0" and "FS_FileForHandle w h = Inr fp"
    and "streams w fp = Some s"
  shows
    "(Fail \<notin> set (schedule w) \<and> count_list (schedule w) (Deliver 0) \<le> 1 \<longrightarrow>
      fst (FS_Write w buffer h) = Inr (int (length buffer))
      \<and> flushes (trace (snd (FS_Write w buffer h))) =
          flushes (trace w) @ (if handleSync (fsh w h) then [fp] else []))
   \<and> (schedule w = map Deliver ns @ Deliver 0 # rest \<and> count_list ns 0 = 1
        \<and> sum_list ns < length buffer \<longrightarrow>
      fst (FS_Write w buffer h) = Inr 0
      \<and> last (trace (snd (FS_Write w buffer h))) = Com_Printf ''FS_Write: 0 bytes written'' []
      \<and> flushes (trace (snd (FS_Write w buffer h))) = flushes (trace w))
   \<and> (schedule w = map Deliver ns @ Fail # rest \<and> count_list ns 0 \<le> 1
        \<and> sum_list ns < length buffer \<longrightarrow>
      fst (FS_Write w buffer h) = Inr 0
      \<and> last (trace (snd (FS_Write w buffer h))) = Com_Printf ''FS_Write: -1 bytes written'' []
      \<and> flushes (trace (snd (FS_Write w buffer h))) = flushes (trace w))"
  using FS_Write_complete [OF assms] FS_Write_second_stall [OF assms] FS_Write_native_error [OF assms]
  by blast

text \<open>
  C5, witness: four bytes to write through a handle with the sync flag set.  With the
  device accepting 2, 0, 2 bytes the write returns 4 and flushes; with 2, 0, 0 and with
  2 and then the error code it returns 0, prints its message and does not flush.
\<close>

theorem FS_Write_outcomes_witness:
  "fst (FS_Write (writing_world True [Deliver 2, Deliver 0, Deliver 2]) [1, 2, 3, 4] 1) = Inr 4
   \<and> flushes (trace (snd (FS_Write (writing_world True [Deliver 2, Deliver 0, Deliver 2]) [1, 2, 3, 4] 1))) = [1]
   \<and> fst (FS_Write (writing_world True [Deliver 2, Deliver 0, Deliver 0]) [1, 2, 3, 4] 1) = Inr 0
   \<and> last (trace (snd (FS_Write (writing_world True [Deliver 2, Deliver 0, Deliver 0]) [1, 2, 3, 4] 1))) =
       Com_Printf ''FS_Write: 0 bytes written'' []
   \<and> flushes (trace (snd (FS_Write (writing_world True [Deliver 2, Deliver 0, Deliver 0]) [1, 2, 3, 4] 1))) = []
   \<and> fst (FS_Write (writing_world True [Deliver 2, Fail]) [1, 2, 3, 4] 1) = Inr 0
   \<and> last (trace (snd (FS_Write (writing_world True [Deliver 2, Fail]) [1, 2, 3, 4] 1))) =
       Com_Printf ''FS_Write: -1 bytes written'' []"
proof -
  let ?s = "\<lparr>f_path = ''/home/user/main/out.bin'', f_pos = 0, f_append = False\<rparr>"
  have pre: "fs_searchpaths (writing_world True sched) \<noteq> []" "(1::int) \<noteq> 0"
    "FS_FileForHandle (writing_world True sched) 1 = Inr 1"
    "streams (writing_world True sched) 1 = Some ?s"
    for sched
    by (simp_all add: writing_world_def example_world_def empty_slot_def FS_FileForHandle_def)
  have w: "schedule (writing_world True sched) = sched" "trace (writing_world True sched) = []"
    "handleSync (fsh (writing_world True sched) 1)" for sched
    by (simp_all add: writing_world_def example_world_def)
  have a: "fst (FS_Write (writing_world True [Deliver 2, Deliver 0, Deliver 2]) [1, 2, 3, 4] 1) = Inr 4
   \<and> flushes (trace (snd (FS_Write (writing_world True [Deliver 2, Deliver 0, Deliver 2]) [1, 2, 3, 4] 1))) = [1]"
    using FS_Write_outcomes [OF pre, of "[Deliver 2, Deliver 0, Deliver 2]" "[1, 2, 3, 4]" "[]" "[]"]
    by (simp add: w)
  have b: "fst (FS_Write (writing_world True [Deliver 2, Deliver 0, Deliver 0]) [1, 2, 3, 4] 1) = Inr 0
   \<and> last (trace (snd (FS_Write (writing_world True [Deliver 2, Deliver 0, Deliver 0]) [1, 2, 3, 4] 1))) =
       Com_Printf ''FS_Write: 0 bytes written'' []
   \<and> flushes (trace (snd (FS_Write (writing_world True [Deliver 2, Deliver 0, Deliver 0]) [1, 2, 3, 4] 1))) = []"
    using FS_Write_outcomes [OF pre, of "[Deliver 2, Deliver 0, Deliver 0]" "[1, 2, 3, 4]" "[2, 0]" "[]"]
    by (simp add: w)
  have c: "fst (FS_Write (writing_world True [Deliver 2, Fail]) [1, 2, 3, 4] 1) = Inr 0
   \<and> last (trace (snd (FS_Write (writing_world True [Deliver 2, Fail]) [1, 2, 3, 4] 1))) =
       Com_Printf ''FS_Write: -1 bytes written'' []"
    using FS_Write_outcomes [OF pre, of "[Deliver 2, Fail]" "[1, 2, 3, 4]" "[2]" "[]"]
    by (simp add: w)
  from a b c show ?thesis by simp
qed

text \<open>
  C5, counterexample.  Four bytes are to be written through the handle 1, whose sync
  flag is set; the device accepts two bytes and then nothing.  The two bytes are in the
  file, yet \<^verbatim>\<open>FS_Write\<close> returns 0 and not the count 2 of the bytes written so far,
  and the log shows the three writes and the message, and no flush.
\<close>

theorem FS_Write_outcomes_counterexample:
  "fst (FS_Write (writing_world True [Deliver 2, Deliver 0, Deliver 0]) [1, 2, 3, 4] 1) = Inr 0
   \<and> files (snd (FS_Write (writing_world True [Deliver 2, Deliver 0, Deliver 0]) [1, 2, 3, 4] 1))
        ''/home/user/main/out.bin'' = Some [1, 2]
   \<and> handleSync (fsh (writing_world True [Deliver 2, Deliver 0, Deliver 0]) 1)
   \<and> trace (snd (FS_Write (writing_world True [Deliver 2, Deliver 0, Deliver 0]) [1, 2, 3, 4] 1)) =
       [Call_fwrite 1 4, Call_fwrite 1 2, Call_fwrite 1 2, Com_Printf ''FS_Write: 0 bytes written'' []]"
  by (simp add: writing_world_def example_world_def empty_slot_def FS_Write_def FS_FileForHandle_def
      FS_Write_loop.simps native_fwrite_def transfer_limit_def file_data_def write_at_def emit_def Let_def)


subsection \<open>C6: seeking in an archive entry\<close>

lemma discard_reads_sum: "sum_list (discard_reads n) = n"
  by (induction n rule: discard_reads.induct) (subst discard_reads.simps, simp)

lemma discard_reads_bound: "\<forall>k \<in> set (discard_reads n). k \<le> PK3_SEEK_BUFFER_SIZE"
  by (induction n rule: discard_reads.induct) (subst discard_reads.simps, auto)

lemma FS_Read_zip:
  assumes "fs_searchpaths w \<noteq> []" and "f \<noteq> 0" and "zipFile (fsh w f) = qtrue"
    and "archives w (handleFiles_file (fsh w f)) = Some a"
    and "z_current a = Some (d, pos)"
  shows "\<exists>w'. FS_Read w len f = (Inr (int (length (take len (drop pos d))), take len (drop pos d)), w')
          \<and> fsh w' = fsh w \<and> fs_searchpaths w' = fs_searchpaths w
          \<and> archives w' = (archives w)(handleFiles_file (fsh w f) \<mapsto>
               a\<lparr>z_current := Some (d, pos + min len (length d - pos))\<rparr>)
          \<and> trace w' = trace w @ [Call_unzReadCurrentFile (handleFiles_file (fsh w f)) len]"
  using assms
  by (simp add: FS_Read_def unzReadCurrentFile_def Let_def emit_def min.commute)

lemma FS_Seek_discard_zip:
  assumes "fs_searchpaths w \<noteq> []" and "f \<noteq> 0" and "zipFile (fsh w f) = qtrue"
    and "archives w (handleFiles_file (fsh w f)) = Some a"
    and "z_current a = Some (d, pos)"
  shows "\<exists>w'. FS_Seek_discard w f n = (Inr (), w')
          \<and> fsh w' = fsh w \<and> fs_searchpaths w' = fs_searchpaths w
          \<and> archives w' = (archives w)(handleFiles_file (fsh w f) \<mapsto>
               a\<lparr>z_current := Some (d, pos + min n (length d - pos))\<rparr>)
          \<and> trace w' = trace w @ map (Call_unzReadCurrentFile (handleFiles_file (fsh w f))) (discard_reads n)"
  using assms
proof (induction w f n arbitrary: a pos rule: FS_Seek_discard.induct)
  case (1 w f remainder)
  let ?z = "handleFiles_file (fsh w f)"
  show ?case
  proof (cases "remainder > PK3_SEEK_BUFFER_SIZE")
    case True
    let ?pos1 = "pos + min PK3_SEEK_BUFFER_SIZE (length d - pos)"
    let ?a1 = "a\<lparr>z_current := Some (d, ?pos1)\<rparr>"
    from FS_Read_zip [OF "1.prems", of PK3_SEEK_BUFFER_SIZE]
    obtain w1 where rd: "FS_Read w PK3_SEEK_BUFFER_SIZE f =
        (Inr (int (length (take PK3_SEEK_BUFFER_SIZE (drop pos d))), take PK3_SEEK_BUFFER_SIZE (drop pos d)), w1)"
      and frame: "fsh w1 = fsh w" "fs_searchpaths w1 = fs_searchpaths w"
        "trace w1 = trace w @ [Call_unzReadCurrentFile ?z PK3_SEEK_BUFFER_SIZE]"
      and ar: "archives w1 = (archives w)(?z \<mapsto> ?a1)"
      by blast
    have step: "FS_Seek_discard w f remainder = FS_Seek_discard w1 f (remainder - PK3_SEEK_BUFFER_SIZE)"
      using True rd by (subst FS_Seek_discard.simps) simp
    have p1: "fs_searchpaths w1 \<noteq> []" "zipFile (fsh w1 f) = qtrue"
      "archives w1 (handleFiles_file (fsh w1 f)) = Some ?a1" "z_current ?a1 = Some (d, ?pos1)"
      using "1.prems" by (simp_all add: frame ar)
    have pos: "?pos1 + min (remainder - PK3_SEEK_BUFFER_SIZE) (length d - ?pos1) =
        pos + min remainder (length d - pos)"
      using True by (auto simp: min_def)
    have reads: "discard_reads remainder =
        PK3_SEEK_BUFFER_SIZE # discard_reads (remainder - PK3_SEEK_BUFFER_SIZE)"
      using True by (subst discard_reads.simps) simp
    from "1.IH" [OF True rd [symmetric] refl p1(1) "1.prems"(2) p1(2,3,4)]
    show ?thesis
      unfolding step by (auto simp: frame ar pos reads fun_eq_iff)
  next
    case False
    have reads: "discard_reads remainder = [remainder]"
      using False by (subst discard_reads.simps) simp
    from FS_Read_zip [OF "1.prems", of remainder]
    show ?thesis
      using False by (subst FS_Seek_discard.simps) (auto simp: reads)
  qed
qed


lemma FS_Seek_body_zip_set:
  assumes "fs_searchpaths w \<noteq> []" and "f \<noteq> 0" and "zipFile (fsh w f) = qtrue"
    and "archives w (handleFiles_file (fsh w f)) = Some a"
    and "find (\<lambda>(off, nm, d). off = zipFilePos (fsh w f)) (z_entries a) = Some (off0, nm, d)"
    and "0 \<le> offset"
  shows "\<exists>w'. FS_Seek_body w f offset FS_SEEK_SET = (Inr offset, w')
          \<and> fsh w' = fsh w \<and> fs_searchpaths w' = fs_searchpaths w
          \<and> archives w' = (archives w)(handleFiles_file (fsh w f) \<mapsto>
               a\<lparr>z_offset := zipFilePos (fsh w f),
                  z_current := Some (d, min (nat offset) (length d))\<rparr>)
          \<and> trace w' = trace w
               @ [Call_unzSetOffset (handleFiles_file (fsh w f)) (zipFilePos (fsh w f)),
                  Call_unzOpenCurrentFile (handleFiles_file (fsh w f))]
               @ map (Call_unzReadCurrentFile (handleFiles_file (fsh w f))) (discard_reads (nat offset))"
proof -
  let ?z = "handleFiles_file (fsh w f)"
  let ?w1 = "unzSetOffset w ?z (zipFilePos (fsh w f))"
  let ?w2 = "unzOpenCurrentFile ?w1 (handleFiles_file (fsh ?w1 f))"
  let ?a2 = "a\<lparr>z_offset := zipFilePos (fsh w f), z_current := Some (d, 0)\<rparr>"
  have w2: "fs_searchpaths ?w2 = fs_searchpaths w" "fsh ?w2 = fsh w"
    "archives ?w2 = (archives w)(?z \<mapsto> ?a2)"
    "trace ?w2 = trace w @ [Call_unzSetOffset ?z (zipFilePos (fsh w f)), Call_unzOpenCurrentFile ?z]"
    using assms(4,5) by (simp_all add: unzSetOffset_def unzOpenCurrentFile_def Let_def emit_def)
  have p: "fs_searchpaths ?w2 \<noteq> []" "zipFile (fsh ?w2 f) = qtrue"
    "archives ?w2 (handleFiles_file (fsh ?w2 f)) = Some ?a2" "z_current ?a2 = Some (d, 0)"
    using assms(1,3) by (simp_all add: w2)
  from FS_Seek_discard_zip [OF p(1) assms(2) p(2,3,4), of "nat offset"]
  obtain w3 where d: "FS_Seek_discard ?w2 f (nat offset) = (Inr (), w3)"
    and frame: "fsh w3 = fsh ?w2" "fs_searchpaths w3 = fs_searchpaths ?w2"
    and ar: "archives w3 = (archives ?w2)(handleFiles_file (fsh ?w2 f) \<mapsto>
               ?a2\<lparr>z_current := Some (d, 0 + min (nat offset) (length d - 0))\<rparr>)"
    and tr: "trace w3 = trace ?w2 @ map (Call_unzReadCurrentFile (handleFiles_file (fsh ?w2 f))) (discard_reads (nat offset))"
    by blast
  have "FS_Seek_body w f offset FS_SEEK_SET = (Inr offset, w3)"
    using assms(3,6) d by (simp add: FS_Seek_body_def Let_def)
  then show ?thesis
    using frame ar tr by (simp add: w2)
qed

lemma FS_Seek_zip_set:
  assumes "fs_searchpaths w \<noteq> []" and "f \<noteq> 0" and "zipFile (fsh w f) = qtrue"
    and "archives w (handleFiles_file (fsh w f)) = Some a"
    and "find (\<lambda>(off, nm, d). off = zipFilePos (fsh w f)) (z_entries a) = Some (off0, nm, d)"
    and "0 \<le> offset"
  shows "\<exists>w'. FS_Seek w f offset FS_SEEK_SET = (Inr offset, w')
          \<and> fsh w' = fsh w \<and> fs_searchpaths w' = fs_searchpaths w
          \<and> archives w' = (archives w)(handleFiles_file (fsh w f) \<mapsto>
               a\<lparr>z_offset := zipFilePos (fsh w f),
                  z_current := Some (d, min (nat offset) (length d))\<rparr>)
          \<and> (\<not> streamed (fsh w f) \<longrightarrow>
               trace w' = trace w
               @ [Call_unzSetOffset (handleFiles_file (fsh w f)) (zipFilePos (fsh w f)),
                  Call_unzOpenCurrentFile (handleFiles_file (fsh w f))]
               @ map (Call_unzReadCurrentFile (handleFiles_file (fsh w f))) (discard_reads (nat offset)))"
proof (cases "streamed (fsh w f)")
  case False
  with FS_Seek_body_zip_set [OF assms] assms(1) show ?thesis
    by (simp add: FS_Seek_def)
next
  case True
  let ?z = "handleFiles_file (fsh w f)"
  let ?w0 = "set_slot f (\<lambda>s. s\<lparr>streamed := qfalse\<rparr>) w"
  let ?a' = "a\<lparr>z_offset := zipFilePos (fsh w f), z_current := Some (d, min (nat offset) (length d))\<rparr>"
  have p0: "fs_searchpaths ?w0 \<noteq> []" "zipFile (fsh ?w0 f) = qtrue"
    "archives ?w0 (handleFiles_file (fsh ?w0 f)) = Some a"
    "find (\<lambda>(off, nm, d). off = zipFilePos (fsh ?w0 f)) (z_entries a) = Some (off0, nm, d)"
    using assms by (simp_all add: set_slot_def)
  from FS_Seek_body_zip_set [OF p0(1) assms(2) p0(2,3,4) assms(6)]
  obtain w1 where b1: "FS_Seek_body ?w0 f offset FS_SEEK_SET = (Inr offset, w1)"
    and f1: "fsh w1 = fsh ?w0" "fs_searchpaths w1 = fs_searchpaths ?w0"
    and a1: "archives w1 = (archives ?w0)(handleFiles_file (fsh ?w0 f) \<mapsto>
               a\<lparr>z_offset := zipFilePos (fsh ?w0 f), z_current := Some (d, min (nat offset) (length d))\<rparr>)"
    by blast
  let ?w2 = "set_slot f (\<lambda>s. s\<lparr>streamed := qtrue\<rparr>) w1"
  have fsh2: "fsh ?w2 = fsh w"
    using True by (auto simp: set_slot_def f1 fun_eq_iff)
  have p2: "fs_searchpaths ?w2 \<noteq> []" "zipFile (fsh ?w2 f) = qtrue"
    "archives ?w2 (handleFiles_file (fsh ?w2 f)) = Some ?a'"
    "find (\<lambda>(off, nm, d). off = zipFilePos (fsh ?w2 f)) (z_entries ?a') = Some (off0, nm, d)"
    using assms unfolding fsh2 by (simp_all add: set_slot_def f1 a1)
  from FS_Seek_body_zip_set [OF p2(1) assms(2) p2(2,3,4) assms(6)]
  obtain w3 where b3: "FS_Seek_body ?w2 f offset FS_SEEK_SET = (Inr offset, w3)"
    and f3: "fsh w3 = fsh ?w2" "fs_searchpaths w3 = fs_searchpaths ?w2"
    and a3: "archives w3 = (archives ?w2)(handleFiles_file (fsh ?w2 f) \<mapsto>
               ?a'\<lparr>z_offset := zipFilePos (fsh ?w2 f), z_current := Some (d, min (nat offset) (length d))\<rparr>)"
    by blast
  have "FS_Seek w f offset FS_SEEK_SET = (Inr offset, w3)"
    using assms(1) True b1 b3 by (simp add: FS_Seek_def)
  moreover have "fsh w3 = fsh w" using f3 fsh2 by simp
  moreover have "fs_searchpaths w3 = fs_searchpaths w" using f3 f1 by (simp add: set_slot_def)
  moreover have "archives w3 = (archives w)(?z \<mapsto> ?a')"
    using a3 unfolding fsh2 by (simp add: set_slot_def a1)
  ultimately show ?thesis using True by simp
qed

lemma FS_Seek_zip_unsupported:
  assumes "fs_searchpaths w \<noteq> []" and "zipFile (fsh w f) = qtrue"
    and "offset < 0 \<or> origin = FS_SEEK_END"
  shows "fst (FS_Seek w f offset origin) =
     Inl (Com_Error ERR_FATAL
       ''Negative offsets and FS_SEEK_END not implemented for FS_Seek on pk3 file contents'')"
  using assms by (auto simp: FS_Seek_def FS_Seek_body_def set_slot_def)

lemma FS_Seek_zip_then_read:
  assumes "fs_searchpaths w \<noteq> []" and "f \<noteq> 0" and "zipFile (fsh w f) = qtrue"
    and "archives w (handleFiles_file (fsh w f)) = Some a"
    and "find (\<lambda>(off, nm, d). off = zipFilePos (fsh w f)) (z_entries a) = Some (off0, nm, d)"
    and "0 \<le> offset"
  shows "fst (FS_Read (snd (FS_Seek w f offset FS_SEEK_SET)) n f) =
     Inr (int (length (take n (drop (nat offset) d))), take n (drop (nat offset) d))"
proof -
  let ?a' = "a\<lparr>z_offset := zipFilePos (fsh w f), z_current := Some (d, min (nat offset) (length d))\<rparr>"
  from FS_Seek_zip_set [OF assms]
  obtain w' where s: "FS_Seek w f offset FS_SEEK_SET = (Inr offset, w')"
    and frame: "fsh w' = fsh w" "fs_searchpaths w' = fs_searchpaths w"
    and ar: "archives w' = (archives w)(handleFiles_file (fsh w f) \<mapsto> ?a')"
    by blast
  have p: "fs_searchpaths w' \<noteq> []" "zipFile (fsh w' f) = qtrue"
    "archives w' (handleFiles_file (fsh w' f)) = Some ?a'"
    "z_current ?a' = Some (d, min (nat offset) (length d))"
    using assms by (simp_all add: frame ar)
  have dr: "drop (min (nat offset) (length d)) d = drop (nat offset) d"
    by (simp add: min_def)
  from FS_Read_zip [OF p(1) assms(2) p(2,3,4), of n]
  show ?thesis
    unfolding s dr by auto
qed

lemma FS_Seek_plain_then_read:
  assumes "fs_searchpaths w \<noteq> []" and "g \<noteq> 0" and "zipFile (fsh w g) = qfalse"
    and "\<not> streamed (fsh w g)"
    and "FS_FileForHandle w g = Inr fp" and "streams w fp = Some s"
    and "Fail \<notin> set (schedule w)" and "count_list (schedule w) (Deliver 0) \<le> 1"
    and "0 \<le> offset" and "nat offset + n \<le> length (file_data w (f_path s))"
  shows "fst (FS_Seek w g offset FS_SEEK_SET) = Inr 0
       \<and> fst (FS_Read (snd (FS_Seek w g offset FS_SEEK_SET)) n g) =
           Inr (int n, take n (drop (nat offset) (file_data w (f_path s))))"
proof -
  let ?w' = "snd (FS_Seek w g offset FS_SEEK_SET)"
  have fp: "handleFiles_file (fsh w g) = fp"
    using assms(5) by (auto simp: FS_FileForHandle_def split: if_splits)
  have sk: "FS_Seek w g offset FS_SEEK_SET = native_fseek w fp offset FS_SEEK_SET"
    using assms(1,3,4,5) by (simp add: FS_Seek_def FS_Seek_body_def)
  have r: "fst (FS_Seek w g offset FS_SEEK_SET) = Inr 0"
    and frame: "fs_searchpaths ?w' = fs_searchpaths w" "fsh ?w' = fsh w" "files ?w' = files w"
      "schedule ?w' = schedule w"
    and str: "streams ?w' = (streams w)(fp \<mapsto> s\<lparr>f_pos := nat offset\<rparr>)"
    using assms(6,9) unfolding sk by (simp_all add: native_fseek_def Let_def emit_def)
  have p: "fs_searchpaths ?w' \<noteq> []" "zipFile (fsh ?w' g) = qfalse"
    "streams ?w' (handleFiles_file (fsh ?w' g)) = Some (s\<lparr>f_pos := nat offset\<rparr>)"
    "Fail \<notin> set (schedule ?w')" "count_list (schedule ?w') (Deliver 0) \<le> 1"
    "f_pos (s\<lparr>f_pos := nat offset\<rparr>) + n \<le> length (file_data ?w' (f_path (s\<lparr>f_pos := nat offset\<rparr>)))"
    using assms by (simp_all add: frame str fp file_data_cong [OF frame(3)])
  from FS_Read_complete [OF p(1) assms(2) p(2,3,4,5,6)] r
  show ?thesis by (simp add: file_data_cong [OF frame(3)])
qed

text \<open>
  C6.  Take an initialised filesystem and a handle \<open>f\<close>, not 0, on an archive entry: the
  slot holds an open archive and the offset \<^verbatim>\<open>zipFilePos\<close> at which the archive has an
  entry with the bytes \<open>d\<close>.  (1) With a negative offset, or with the origin
  \<^verbatim>\<open>FS_SEEK_END\<close>, \<^verbatim>\<open>FS_Seek\<close> raises the fatal error.  (2) With the origin
  \<^verbatim>\<open>FS_SEEK_SET\<close> and an offset that is not negative it returns the offset; the codec
  then stands at the entry's offset, with the entry open and read up to the offset (or
  to its end, if that comes first); unless the handle is marked as streamed the calls
  made are: set the codec to the entry's offset, reopen the entry, and the reads of
  \<open>discard_reads\<close>, each of at most 65536 bytes and of the offset in sum; and a
  following \<^verbatim>\<open>FS_Read\<close> of \<open>n\<close> bytes delivers the bytes of the entry from the offset
  on.  (3) A plain handle \<open>g\<close> on a file with the same bytes, sought natively to the same
  offset, delivers the same to the same read, when the device completes the transfer
  and the file holds the \<open>n\<close> bytes.
\<close>

theorem FS_Seek_archive_handle:
  assumes "fs_searchpaths w \<noteq> []" and "f \<noteq> 0" and "zipFile (fsh w f) = qtrue"
    and "archives w (handleFiles_file (fsh w f)) = Some a"
    and "find (\<lambda>(off, nm, d). off = zipFilePos (fsh w f)) (z_entries a) = Some (off0, nm, d)"
  shows
    "(offset < 0 \<or> origin = FS_SEEK_END \<longrightarrow>
        fst (FS_Seek w f offset origin) =
          Inl (Com_Error ERR_FATAL
            ''Negative offsets and FS_SEEK_END not implemented for FS_Seek on pk3 file contents''))
   \<and> (0 \<le> offset \<longrightarrow>
        fst (FS_Seek w f offset FS_SEEK_SET) = Inr offset
        \<and> archives (snd (FS_Seek w f offset FS_SEEK_SET)) (handleFiles_file (fsh w f)) =
            Some (a\<lparr>z_offset := zipFilePos (fsh w f),
                    z_current := Some (d, min (nat offset) (length d))\<rparr>)
        \<and> (\<not> streamed (fsh w f) \<longrightarrow>
             trace (snd (FS_Seek w f offset FS_SEEK_SET)) =
               trace w
               @ [Call_unzSetOffset (handleFiles_file (fsh w f)) (zipFilePos (fsh w f)),
                  Call_unzOpenCurrentFile (handleFiles_file (fsh w f))]
               @ map (Call_unzReadCurrentFile (handleFiles_file (fsh w f))) (discard_reads (nat offset)))
        \<and> sum_list (discard_reads (nat offset)) = nat offset
        \<and> (\<forall>k \<in> set (discard_reads (nat offset)). k \<le> 65536)
        \<and> fst (FS_Read (snd (FS_Seek w f offset FS_SEEK_SET)) n f) =
            Inr (int (length (take n (drop (nat offset) d))), take n (drop (nat offset) d)))
   \<and> (0 \<le> offset \<and> g \<noteq> 0 \<and> zipFile (fsh w g) = qfalse \<and> \<not> streamed (fsh w g)
        \<and> FS_FileForHandle w g = Inr fp \<and> streams w fp = Some s \<and> file_data w (f_path s) = d
        \<and> Fail \<notin> set (schedule w) \<and> count_list (schedule w) (Deliver 0) \<le> 1
        \<and> nat offset + n \<le> length d \<longrightarrow>
        fst (FS_Read (snd (FS_Seek w g offset FS_SEEK_SET)) n g) =
          fst (FS_Read (snd (FS_Seek w f offset FS_SEEK_SET)) n f))"
proof (intro conjI impI)
  assume "offset < 0 \<or> origin = FS_SEEK_END"
  then show "fst (FS_Seek w f offset origin) =
          Inl (Com_Error ERR_FATAL
            ''Negative offsets and FS_SEEK_END not implemented for FS_Seek on pk3 file contents'')"
    by (rule FS_Seek_zip_unsupported [OF assms(1,3)])
next
  assume o: "0 \<le> offset"
  from FS_Seek_zip_set [OF assms o]
  show "fst (FS_Seek w f offset FS_SEEK_SET) = Inr offset"
    and "archives (snd (FS_Seek w f offset FS_SEEK_SET)) (handleFiles_file (fsh w f)) =
            Some (a\<lparr>z_offset := zipFilePos (fsh w f),
                    z_current := Some (d, min (nat offset) (length d))\<rparr>)"
    by auto
  show "sum_list (discard_reads (nat offset)) = nat offset"
    by (rule discard_reads_sum)
  show "\<forall>k \<in> set (discard_reads (nat offset)). k \<le> 65536"
    using discard_reads_bound [of "nat offset"] by (simp add: PK3_SEEK_BUFFER_SIZE_def)
  show "fst (FS_Read (snd (FS_Seek w f offset FS_SEEK_SET)) n f) =
            Inr (int (length (take n (drop (nat offset) d))), take n (drop (nat offset) d))"
    by (rule FS_Seek_zip_then_read [OF assms o])
next
  assume "0 \<le> offset" and "\<not> streamed (fsh w f)"
  with FS_Seek_zip_set [OF assms, of offset]
  show "trace (snd (FS_Seek w f offset FS_SEEK_SET)) =
               trace w
               @ [Call_unzSetOffset (handleFiles_file (fsh w f)) (zipFilePos (fsh w f)),
                  Call_unzOpenCurrentFile (handleFiles_file (fsh w f))]
               @ map (Call_unzReadCurrentFile (handleFiles_file (fsh w f))) (discard_reads (nat offset))"
    by auto
next
  assume h: "0 \<le> offset \<and> g \<noteq> 0 \<and> zipFile (fsh w g) = qfalse \<and> \<not> streamed (fsh w g)
        \<and> FS_FileForHandle w g = Inr fp \<and> streams w fp = Some s \<and> file_data w (f_path s) = d
        \<and> Fail \<notin> set (schedule w) \<and> count_list (schedule w) (Deliver 0) \<le> 1
        \<and> nat offset + n \<le> length d"
  then have o: "0 \<le> offset" and len: "nat offset + n \<le> length (file_data w (f_path s))"
    by simp_all
  from h FS_Seek_plain_then_read [OF assms(1) _ _ _ _ _ _ _ o len, of g fp]
  have "fst (FS_Read (snd (FS_Seek w g offset FS_SEEK_SET)) n g) =
      Inr (int n, take n (drop (nat offset) d))"
    by simp
  moreover from h have "length (take n (drop (nat offset) d)) = n"
    by (auto simp: min_def)
  ultimately show "fst (FS_Read (snd (FS_Seek w g offset FS_SEEK_SET)) n g) =
          fst (FS_Read (snd (FS_Seek w f offset FS_SEEK_SET)) n f)"
    using FS_Seek_zip_then_read [OF assms o, of n] by simp
qed

text \<open>
  C6, witness: an entry of 10016 bytes whose last 16 bytes are 1 to 16.  Seeking the
  archive handle to 10000 from the start returns 10000 after one discarding read of
  10000 bytes, and reading 16 bytes then yields 1 to 16, as from the plain copy
  sought natively; seeking by -1, or from the end, raises the fatal error.
\<close>

theorem FS_Seek_archive_handle_witness:
  "fst (FS_Seek archive_world 1 10000 FS_SEEK_SET) = Inr 10000
   \<and> trace (snd (FS_Seek archive_world 1 10000 FS_SEEK_SET)) =
       [Call_unzSetOffset 7 1234, Call_unzOpenCurrentFile 7, Call_unzReadCurrentFile 7 10000]
   \<and> fst (FS_Read (snd (FS_Seek archive_world 1 10000 FS_SEEK_SET)) 16 1) =
       Inr (16, [1, 2, 3, 4, 5, 6, 7, 8, 9, 10, 11, 12, 13, 14, 15, 16])
   \<and> fst (FS_Read (snd (FS_Seek archive_world 2 10000 FS_SEEK_SET)) 16 2) =
       Inr (16, [1, 2, 3, 4, 5, 6, 7, 8, 9, 10, 11, 12, 13, 14, 15, 16])
   \<and> fst (FS_Seek archive_world 1 (-1) FS_SEEK_CUR) =
       Inl (Com_Error ERR_FATAL
         ''Negative offsets and FS_SEEK_END not implemented for FS_Seek on pk3 file contents'')
   \<and> fst (FS_Seek archive_world 1 0 FS_SEEK_END) =
       Inl (Com_Error ERR_FATAL
         ''Negative offsets and FS_SEEK_END not implemented for FS_Seek on pk3 file contents'')"
proof -
  let ?a = "\<lparr>z_entries = [(1234, ''sound/explosion.wav'', sample_content)],
             z_offset = 0, z_current = Some (sample_content, 5)\<rparr>"
  let ?s = "\<lparr>f_path = ''/home/user/main/copy.bin'', f_pos = 3, f_append = False\<rparr>"
  have pre: "fs_searchpaths archive_world \<noteq> []" "(1::int) \<noteq> 0"
    "zipFile (fsh archive_world 1) = qtrue"
    "archives archive_world (handleFiles_file (fsh archive_world 1)) = Some ?a"
    "find (\<lambda>(off, nm, d). off = zipFilePos (fsh archive_world 1)) (z_entries ?a) =
       Some (1234, ''sound/explosion.wav'', sample_content)"
    by (simp_all add: archive_world_def example_world_def empty_slot_def)
  have g: "zipFile (fsh archive_world 2) = qfalse" "\<not> streamed (fsh archive_world 2)"
    "FS_FileForHandle archive_world 2 = Inr 9" "streams archive_world 9 = Some ?s"
    "file_data archive_world ''/home/user/main/copy.bin'' = sample_content"
    "schedule archive_world = []" "trace archive_world = []" "\<not> streamed (fsh archive_world 1)"
    "handleFiles_file (fsh archive_world 1) = 7" "zipFilePos (fsh archive_world 1) = 1234"
    by (simp_all add: archive_world_def example_world_def empty_slot_def FS_FileForHandle_def
        file_data_def)
  have c: "take 16 (drop 10000 sample_content) = [1, 2, 3, 4, 5, 6, 7, 8, 9, 10, 11, 12, 13, 14, 15, 16]"
    "length sample_content = 10016"
    by (simp_all add: sample_content_def)
  have r: "discard_reads 10000 = [10000]"
    by (subst discard_reads.simps) (simp add: PK3_SEEK_BUFFER_SIZE_def)
  from FS_Seek_archive_handle [OF pre, of 10000 FS_SEEK_SET 16 2 9 ?s]
    FS_Seek_archive_handle [OF pre, of "-1" FS_SEEK_CUR 16 2 9 ?s]
    FS_Seek_archive_handle [OF pre, of 0 FS_SEEK_END 16 2 9 ?s]
  show ?thesis
    by (simp add: g c r)
qed

subsection \<open>C7: a whole file written and read back\<close>

text \<open>For a path that is accepted, \<^verbatim>\<open>FS_CreatePath\<close> adds calls to the log and nothing else.\<close>

lemma mkdir_loop_frame:
  "\<exists>t. foldl (\<lambda>w' ofs. if p ! ofs = PATH_SEP then snd (Sys_Mkdir w' (take ofs p)) else w') w xs
        = w\<lparr>trace := t\<rparr>"
proof (induction xs arbitrary: w)
  case Nil
  show ?case by (rule exI [of _ "trace w"]) simp
next
  case (Cons x xs)
  show ?case
  proof (cases "p ! x = PATH_SEP")
    case True
    from Cons [of "snd (Sys_Mkdir w (take x p))"] True show ?thesis
      by (auto simp: Sys_Mkdir_snd emit_def)
  next
    case False
    from Cons [of w] False show ?thesis by auto
  qed
qed

lemma FS_CreatePath_frame:
  assumes "\<not> sublist ''..'' p" and "\<not> sublist ''::'' p"
  shows "\<exists>t. FS_CreatePath w p = (qfalse, w\<lparr>trace := t\<rparr>)"
  using assms mkdir_loop_frame [of p w "[1 ..< length p]"]
  by (auto simp: FS_CreatePath_def strstr_None_iff)

lemma FS_FOpenFileWrite_opens:
  assumes "fs_searchpaths w \<noteq> []"
    and "FS_HandleForFile w = Inr f"
    and "\<not> sublist ''..'' (FS_BuildOSPath w (fs_homepath w) [] qpath)"
    and "\<not> sublist ''::'' (FS_BuildOSPath w (fs_homepath w) [] qpath)"
    and "writable w (FS_BuildOSPath w (fs_homepath w) [] qpath)"
  shows "\<exists>t. FS_FOpenFileWrite w qpath =
     (Inr f, w\<lparr>fsh := (fsh w)(f := (fsh w f)\<lparr>zipFile := qfalse, handleFiles_file := Suc (next_ptr w),
                          name := Q_strncpyz (MAX_ZPATH w) qpath, handleSync := qfalse\<rparr>),
               files := (files w)(FS_BuildOSPath w (fs_homepath w) [] qpath \<mapsto> []),
               streams := (streams w)(Suc (next_ptr w) \<mapsto>
                  \<lparr>f_path = FS_BuildOSPath w (fs_homepath w) [] qpath, f_pos = 0, f_append = False\<rparr>),
               next_ptr := Suc (next_ptr w), trace := t\<rparr>)"
proof -
  let ?w1 = "set_slot f (\<lambda>s. s\<lparr>zipFile := qfalse\<rparr>) w"
  let ?p = "FS_BuildOSPath w (fs_homepath w) [] qpath"
  from FS_CreatePath_frame [OF assms(3,4), of ?w1]
  obtain t where c: "FS_CreatePath ?w1 ?p = (qfalse, ?w1\<lparr>trace := t\<rparr>)" by blast
  have p1: "FS_BuildOSPath ?w1 (fs_homepath ?w1) [] qpath = ?p"
    by (simp add: set_slot_def)
  have r: "f \<noteq> 0"
    using FS_HandleForFile_range [OF assms(2)] by auto
  have "FS_FOpenFileWrite w qpath =
     (let (fp, w3) = native_fopen (?w1\<lparr>trace := t\<rparr>) ?p ''wb'';
          w4 = set_slot f (\<lambda>s. s\<lparr>handleFiles_file := fp,
                  name := Q_strncpyz (MAX_ZPATH w3) qpath, handleSync := qfalse\<rparr>) w3
      in (Inr (if handleFiles_file (fsh w4 f) = 0 then 0 else f), w4))"
    using assms(1,2) by (simp add: FS_FOpenFileWrite_def Let_def p1 c)
  also have "\<dots> = (Inr f, w\<lparr>fsh := (fsh w)(f := (fsh w f)\<lparr>zipFile := qfalse, handleFiles_file := Suc (next_ptr w),
                          name := Q_strncpyz (MAX_ZPATH w) qpath, handleSync := qfalse\<rparr>),
               files := (files w)(?p \<mapsto> []),
               streams := (streams w)(Suc (next_ptr w) \<mapsto> \<lparr>f_path = ?p, f_pos = 0, f_append = False\<rparr>),
               next_ptr := Suc (next_ptr w), trace := t @ [Call_fopen ?p ''wb'']\<rparr>)"
    using assms(5) by (simp add: native_fopen_def new_stream_def emit_def set_slot_def Let_def)
  finally show ?thesis by blast
qed

lemma FS_HandleForFile_below:
  assumes "FS_HandleForFile w = Inr f" and "1 \<le> i" and "int i < f"
  shows "handleFiles_file (fsh w (int i)) \<noteq> 0"
proof -
  let ?xs = "map int [1 ..< MAX_FILE_HANDLES w]"
  from assms(1) have "find (\<lambda>i. handleFiles_file (fsh w i) = 0) ?xs = Some f"
    by (auto simp: FS_HandleForFile_def split: option.splits)
  then obtain k where k: "k < length ?xs" "f = ?xs ! k"
    and below: "\<forall>j<k. \<not> handleFiles_file (fsh w (?xs ! j)) = 0"
    unfolding find_Some_iff by blast
  from k have fk: "f = int (1 + k)" by simp
  with assms(2,3) have "i - 1 < k" by simp
  with below have "\<not> handleFiles_file (fsh w (?xs ! (i - 1))) = 0" by blast
  moreover have "?xs ! (i - 1) = int i"
    using assms(2) \<open>i - 1 < k\<close> k(1) by simp
  ultimately show ?thesis by simp
qed

lemma FS_HandleForFile_reuse:
  assumes "FS_HandleForFile w = Inr f"
    and "MAX_FILE_HANDLES w' = MAX_FILE_HANDLES w"
    and "fsh w' = (fsh w)(f := x)" and "handleFiles_file x = 0"
  shows "FS_HandleForFile w' = Inr f"
proof -
  from FS_HandleForFile_range [OF assms(1)] have r: "1 \<le> f" "f < int (MAX_FILE_HANDLES w)"
    by auto
  have "FS_HandleForFile w' = Inr (int (nat f))"
  proof (rule FS_HandleForFile_first)
    show "1 \<le> nat f" using r by simp
    show "nat f < MAX_FILE_HANDLES w'" using r assms(2) by simp
    show "handleFiles_file (fsh w' (int (nat f))) = 0" using r assms(3,4) by simp
    show "\<forall>i. 1 \<le> i \<and> i < nat f \<longrightarrow> handleFiles_file (fsh w' (int i)) \<noteq> 0"
    proof (intro allI impI)
      fix i assume i: "1 \<le> i \<and> i < nat f"
      then have "int i < f" using r by linarith
      with FS_HandleForFile_below [OF assms(1), of i] i have "handleFiles_file (fsh w (int i)) \<noteq> 0"
        by simp
      with \<open>int i < f\<close> show "handleFiles_file (fsh w' (int i)) \<noteq> 0"
        by (simp add: assms(3))
    qed
  qed
  with r show ?thesis by simp
qed

lemma walk_skips_packs:
  assumes "list_all (pack_lacks w q) pre"
  shows "FS_FOpenFileRead_walk w (pre @ rest) q = FS_FOpenFileRead_walk w rest q"
  using assms
proof (induction pre)
  case Nil
  then show ?case by simp
next
  case (Cons sp pre)
  from Cons.prems have l: "pack_lacks w q sp" and rest: "list_all (pack_lacks w q) pre"
    by simp_all
  from l obtain pak where pak: "pack sp = Some pak"
    by (auto simp: pack_lacks_def split: option.splits)
  have "FS_FOpenFileRead_walk w (sp # pre @ rest) q = FS_FOpenFileRead_walk w (pre @ rest) q"
  proof (cases "archives w (pak_handle pak)")
    case None
    with pak show ?thesis by simp
  next
    case (Some a)
    with l pak have "find (\<lambda>(off, nm, d). FS_FilenameCompare nm q = 0) (z_entries a) = None"
      by (simp add: pack_lacks_def)
    with pak Some show ?thesis by simp
  qed
  with Cons.IH [OF rest] show ?case by simp
qed

lemma pack_lacks_cong: "archives w' = archives w \<Longrightarrow> pack_lacks w' = pack_lacks w"
  by (intro ext) (auto simp: pack_lacks_def split: option.splits)

lemma FS_BuildOSPath_gamedir:
  "FS_BuildOSPath w base (fs_gamedir w) qpath = FS_BuildOSPath w base [] qpath"
  by (simp add: FS_BuildOSPath_def)

text \<open>Writing a whole buffer through a fresh stream when the device takes it at once.\<close>

lemma FS_Write_at_once:
  assumes "fs_searchpaths w \<noteq> []" and "h \<noteq> 0" and "FS_FileForHandle w h = Inr fp"
    and "streams w fp = Some \<lparr>f_path = p, f_pos = 0, f_append = False\<rparr>"
    and "files w p = Some []" and "schedule w = []" and "\<not> handleSync (fsh w h)"
  shows "\<exists>t. FS_Write w buf h =
     (Inr (int (length buf)),
      w\<lparr>files := (files w)(p \<mapsto> buf),
        streams := (streams w)(fp \<mapsto> \<lparr>f_path = p, f_pos = length buf, f_append = False\<rparr>),
        trace := t\<rparr>)"
proof (cases "buf = []")
  case True
  have same: "w\<lparr>files := (files w)(p \<mapsto> []),
        streams := (streams w)(fp \<mapsto> \<lparr>f_path = p, f_pos = 0, f_append = False\<rparr>),
        trace := trace w\<rparr> = w"
    using assms(4,5) by (intro world.equality) (auto simp: fun_eq_iff)
  have "FS_Write_loop w fp [] False = (Inr True, w)"
    by (subst FS_Write_loop.simps) simp
  then have "FS_Write w buf h = (Inr (int (length buf)), w)"
    using True assms(1,2,3,7) by (simp add: FS_Write_def)
  then show ?thesis
    using True by (intro exI [of _ "trace w"]) (simp add: same)
next
  case False
  let ?w1 = "w\<lparr>trace := trace w @ [Call_fwrite fp (length buf)], schedule := [],
        files := (files w)(p \<mapsto> buf),
        streams := (streams w)(fp \<mapsto> \<lparr>f_path = p, f_pos = length buf, f_append = False\<rparr>)\<rparr>"
  let ?W = "w\<lparr>files := (files w)(p \<mapsto> buf),
        streams := (streams w)(fp \<mapsto> \<lparr>f_path = p, f_pos = length buf, f_append = False\<rparr>),
        trace := trace w @ [Call_fwrite fp (length buf)]\<rparr>"
  have eqW: "?w1 = ?W"
    using assms(6) by (intro world.equality) simp_all
  have wr: "native_fwrite w fp buf = (Inr (int (length buf)), ?w1)"
    using assms(4,5,6)
    by (simp add: native_fwrite_def Let_def emit_def transfer_limit_def file_data_def write_at_def)
  have "FS_Write_loop ?w1 fp (drop (length buf) buf) False = (Inr True, ?w1)"
    by (subst FS_Write_loop.simps) simp
  with wr False have "FS_Write_loop w fp buf False = (Inr True, ?w1)"
    by (subst FS_Write_loop.simps) simp
  then have loop: "FS_Write_loop w fp buf False = (Inr True, ?W)"
    by (simp only: eqW)
  have "FS_Write w buf h = (Inr (int (length buf)), ?W)"
    using assms(1,2,3,7) by (simp add: FS_Write_def loop)
  then show ?thesis
    by (intro exI [of _ "trace w @ [Call_fwrite fp (length buf)]"])
qed

lemma FS_WriteFile_stores:
  assumes "fs_searchpaths w \<noteq> []"
    and "FS_HandleForFile w = Inr f"
    and "\<not> sublist ''..'' (FS_BuildOSPath w (fs_homepath w) [] qpath)"
    and "\<not> sublist ''::'' (FS_BuildOSPath w (fs_homepath w) [] qpath)"
    and "writable w (FS_BuildOSPath w (fs_homepath w) [] qpath)"
    and "schedule w = []"
  shows "\<exists>t. FS_WriteFile w (Some qpath) (Some b) =
     (Inr (), w\<lparr>fsh := (fsh w)(f := empty_slot),
               files := (files w)(FS_BuildOSPath w (fs_homepath w) [] qpath \<mapsto> b),
               streams := (streams w)(Suc (next_ptr w) := None),
               next_ptr := Suc (next_ptr w), trace := t\<rparr>)"
proof -
  let ?p = "FS_BuildOSPath w (fs_homepath w) [] qpath"
  let ?fp = "Suc (next_ptr w)"
  from FS_HandleForFile_range [OF assms(2)] have r: "1 \<le> f" "f < int (MAX_FILE_HANDLES w)"
    by auto
  from FS_FOpenFileWrite_opens [OF assms(1-5)] obtain t1 where
    op: "FS_FOpenFileWrite w qpath =
     (Inr f, w\<lparr>fsh := (fsh w)(f := (fsh w f)\<lparr>zipFile := qfalse, handleFiles_file := ?fp,
                          name := Q_strncpyz (MAX_ZPATH w) qpath, handleSync := qfalse\<rparr>),
               files := (files w)(?p \<mapsto> []),
               streams := (streams w)(?fp \<mapsto> \<lparr>f_path = ?p, f_pos = 0, f_append = False\<rparr>),
               next_ptr := ?fp, trace := t1\<rparr>)" (is "_ = (_, ?W1)")
    by blast
  have "\<exists>t. FS_Write ?W1 b f =
     (Inr (int (length b)),
      ?W1\<lparr>files := (files ?W1)(?p \<mapsto> b),
        streams := (streams ?W1)(?fp \<mapsto> \<lparr>f_path = ?p, f_pos = length b, f_append = False\<rparr>),
        trace := t\<rparr>)"
  proof (rule FS_Write_at_once)
    show "fs_searchpaths ?W1 \<noteq> []" using assms(1) by simp
    show "f \<noteq> 0" using r by simp
    show "FS_FileForHandle ?W1 f = Inr ?fp" using r by (simp add: FS_FileForHandle_def)
    show "streams ?W1 ?fp = Some \<lparr>f_path = ?p, f_pos = 0, f_append = False\<rparr>" by simp
    show "files ?W1 ?p = Some []" by simp
    show "schedule ?W1 = []" using assms(6) by simp
    show "\<not> handleSync (fsh ?W1 f)" by simp
  qed
  then obtain t2 where
    wr: "FS_Write ?W1 b f =
     (Inr (int (length b)),
      ?W1\<lparr>files := (files ?W1)(?p \<mapsto> b),
        streams := (streams ?W1)(?fp \<mapsto> \<lparr>f_path = ?p, f_pos = length b, f_append = False\<rparr>),
        trace := t2\<rparr>)" (is "_ = (_, ?W2)")
    by blast
  have cl: "snd (FS_FCloseFile ?W2 f) =
      w\<lparr>fsh := (fsh w)(f := empty_slot), files := (files w)(?p \<mapsto> b),
        streams := (streams w)(?fp := None), next_ptr := ?fp, trace := t2 @ [Call_fclose ?fp]\<rparr>"
    by (simp add: FS_FCloseFile_def set_slot_def native_fclose_def emit_def)
  have "FS_WriteFile w (Some qpath) (Some b) = (Inr (), snd (FS_FCloseFile ?W2 f))"
    using assms(1) r by (simp add: FS_WriteFile_def op wr del: FS_BuildOSPath_frame)
  then show ?thesis
    unfolding cl by blast
qed

lemma FS_filelength_fresh:
  assumes "0 \<le> f" and "f \<le> int (MAX_FILE_HANDLES w)"
    and "handleFiles_file (fsh w f) = fp" and "fp \<noteq> 0"
    and "streams w fp = Some \<lparr>f_path = p, f_pos = 0, f_append = False\<rparr>"
    and "files w p = Some b"
  shows "\<exists>w'. FS_filelength w f = (Inr (int (length b)), w')
      \<and> fsh w' = fsh w \<and> streams w' = streams w \<and> files w' = files w
      \<and> fs_searchpaths w' = fs_searchpaths w \<and> schedule w' = schedule w
      \<and> fs_loadStack w' = fs_loadStack w \<and> archives w' = archives w"
  using assms
  by (simp add: FS_filelength_def FS_FileForHandle_def native_ftell_def native_fseek_def
      emit_def file_data_def Let_def fun_eq_iff)

lemma native_fopen_rb:
  assumes "files w p = Some b"
  shows "\<exists>w'. native_fopen w p ''rb'' = (Suc (next_ptr w), w')
      \<and> fsh w' = fsh w \<and> files w' = files w
      \<and> streams w' = (streams w)(Suc (next_ptr w) \<mapsto> \<lparr>f_path = p, f_pos = 0, f_append = False\<rparr>)
      \<and> fs_searchpaths w' = fs_searchpaths w \<and> schedule w' = schedule w
      \<and> fs_loadStack w' = fs_loadStack w \<and> archives w' = archives w
      \<and> MAX_FILE_HANDLES w' = MAX_FILE_HANDLES w \<and> MAX_ZPATH w' = MAX_ZPATH w"
  using assms by (simp add: native_fopen_def new_stream_def emit_def Let_def)

lemma FS_HandleForFile_cong:
  "fsh w' = fsh w \<Longrightarrow> MAX_FILE_HANDLES w' = MAX_FILE_HANDLES w \<Longrightarrow>
     FS_HandleForFile w' = FS_HandleForFile w"
  by (simp add: FS_HandleForFile_def)

lemma FS_FOpenFileRead_walk_dir_hit:
  assumes "FS_HandleForFile w = Inr f"
    and "files w (FS_BuildOSPath w base game q) = Some b"
  shows "\<exists>w'. FS_FOpenFileRead_walk w
            (\<lparr>pack = None, dir = Some \<lparr>dir_path = base, dir_gamedir = game\<rparr>\<rparr> # post) q
          = (Inr (int (length b), f), w')
      \<and> fsh w' = (fsh w)(f := (fsh w f)\<lparr>handleFiles_file := Suc (next_ptr w), zipFile := qfalse,
                      handleSync := qfalse, name := Q_strncpyz (MAX_ZPATH w) q\<rparr>)
      \<and> streams w' = (streams w)(Suc (next_ptr w) \<mapsto>
            \<lparr>f_path = FS_BuildOSPath w base game q, f_pos = 0, f_append = False\<rparr>)
      \<and> files w' = files w \<and> fs_searchpaths w' = fs_searchpaths w \<and> schedule w' = schedule w
      \<and> fs_loadStack w' = fs_loadStack w \<and> archives w' = archives w"
proof -
  let ?p = "FS_BuildOSPath w base game q"
  let ?fp = "Suc (next_ptr w)"
  from FS_HandleForFile_range [OF assms(1)] have r: "1 \<le> f" "f < int (MAX_FILE_HANDLES w)"
    by auto
  from native_fopen_rb [OF assms(2)] obtain w1 where
    o: "native_fopen w ?p ''rb'' = (?fp, w1)"
    and w1: "fsh w1 = fsh w" "files w1 = files w"
      "streams w1 = (streams w)(?fp \<mapsto> \<lparr>f_path = ?p, f_pos = 0, f_append = False\<rparr>)"
      "fs_searchpaths w1 = fs_searchpaths w" "schedule w1 = schedule w"
      "fs_loadStack w1 = fs_loadStack w" "archives w1 = archives w"
      "MAX_FILE_HANDLES w1 = MAX_FILE_HANDLES w" "MAX_ZPATH w1 = MAX_ZPATH w"
    by blast
  have h1: "FS_HandleForFile w1 = Inr f"
    using FS_HandleForFile_cong [OF w1(1) w1(8)] assms(1) by simp
  let ?w2 = "set_slot f (\<lambda>s. s\<lparr>handleFiles_file := ?fp, zipFile := qfalse,
                     handleSync := qfalse, name := Q_strncpyz (MAX_ZPATH w1) q\<rparr>) w1"
  have "\<exists>w'. FS_filelength ?w2 f = (Inr (int (length b)), w')
      \<and> fsh w' = fsh ?w2 \<and> streams w' = streams ?w2 \<and> files w' = files ?w2
      \<and> fs_searchpaths w' = fs_searchpaths ?w2 \<and> schedule w' = schedule ?w2
      \<and> fs_loadStack w' = fs_loadStack ?w2 \<and> archives w' = archives ?w2"
  proof (rule FS_filelength_fresh)
    show "0 \<le> f" using r by simp
    show "f \<le> int (MAX_FILE_HANDLES ?w2)" using r w1(8) by (simp add: set_slot_def)
    show "handleFiles_file (fsh ?w2 f) = ?fp" by (simp add: set_slot_def)
    show "?fp \<noteq> 0" by simp
    show "streams ?w2 ?fp = Some \<lparr>f_path = ?p, f_pos = 0, f_append = False\<rparr>"
      by (simp add: set_slot_def w1(3))
    show "files ?w2 ?p = Some b" using assms(2) by (simp add: set_slot_def w1(2))
  qed
  then obtain w3 where
    l: "FS_filelength ?w2 f = (Inr (int (length b)), w3)"
    and w3: "fsh w3 = fsh ?w2" "streams w3 = streams ?w2" "files w3 = files ?w2"
      "fs_searchpaths w3 = fs_searchpaths ?w2" "schedule w3 = schedule ?w2"
      "fs_loadStack w3 = fs_loadStack ?w2" "archives w3 = archives ?w2"
    by blast
  have "FS_FOpenFileRead_walk w
            (\<lparr>pack = None, dir = Some \<lparr>dir_path = base, dir_gamedir = game\<rparr>\<rparr> # post) q
          = (Inr (int (length b), f), w3)"
    by (simp add: o h1 l)
  moreover have "fsh w3 = (fsh w)(f := (fsh w f)\<lparr>handleFiles_file := ?fp, zipFile := qfalse,
                      handleSync := qfalse, name := Q_strncpyz (MAX_ZPATH w) q\<rparr>)"
    by (simp add: w3(1) set_slot_def w1)
  moreover have "streams w3 = (streams w)(?fp \<mapsto> \<lparr>f_path = ?p, f_pos = 0, f_append = False\<rparr>)"
    by (simp add: w3(2) set_slot_def w1)
  moreover have "files w3 = files w" "fs_searchpaths w3 = fs_searchpaths w"
    "schedule w3 = schedule w" "fs_loadStack w3 = fs_loadStack w" "archives w3 = archives w"
    by (simp_all add: w3 set_slot_def w1)
  ultimately show ?thesis by blast
qed

lemma FS_FCloseFile_plain:
  assumes "\<not> zipFile (fsh w f)" and "handleFiles_file (fsh w f) = fp" and "fp \<noteq> 0"
  shows "fsh (snd (FS_FCloseFile w f)) = (fsh w)(f := empty_slot)"
    and "streams (snd (FS_FCloseFile w f)) = (streams w)(fp := None)"
    and "files (snd (FS_FCloseFile w f)) = files w"
  using assms by (simp_all add: FS_FCloseFile_def set_slot_def native_fclose_def emit_def)

lemma FS_ReadFile_whole:
  assumes "fs_searchpaths w =
      pre @ \<lparr>pack = None, dir = Some \<lparr>dir_path = fs_homepath w, dir_gamedir = fs_gamedir w\<rparr>\<rparr> # post"
    and "list_all (pack_lacks w q) pre"
    and "q \<noteq> []" and "\<not> sublist ''..'' q" and "\<not> sublist ''::'' q"
    and "FS_HandleForFile w = Inr f"
    and "files w (FS_BuildOSPath w (fs_homepath w) [] q) = Some b"
    and "schedule w = []"
  shows "\<exists>w'. FS_ReadFile w (Some q) True = (Inr (int (length b), Some (map Some b @ [Some 0])), w')
      \<and> fsh w' = (fsh w)(f := empty_slot)
      \<and> streams w' = (streams w)(Suc (next_ptr w) := None)
      \<and> files w' = files w"
proof -
  let ?p = "FS_BuildOSPath w (fs_homepath w) [] q"
  let ?fp = "Suc (next_ptr w)"
  let ?s = "\<lparr>f_path = ?p, f_pos = 0, f_append = False\<rparr>"
  from FS_HandleForFile_range [OF assms(6)] have r: "1 \<le> f" "f < int (MAX_FILE_HANDLES w)"
    by auto
  have init: "fs_searchpaths w \<noteq> []"
    using assms(1) by simp
  have ex: "files w (FS_BuildOSPath w (fs_homepath w) (fs_gamedir w) q) = Some b"
    using assms(7) by (simp only: FS_BuildOSPath_gamedir)
  from FS_FOpenFileRead_walk_dir_hit [OF assms(6) ex, of post] obtain w1 where
    walk: "FS_FOpenFileRead_walk w
            (\<lparr>pack = None, dir = Some \<lparr>dir_path = fs_homepath w, dir_gamedir = fs_gamedir w\<rparr>\<rparr> # post) q
          = (Inr (int (length b), f), w1)"
    and w1: "fsh w1 = (fsh w)(f := (fsh w f)\<lparr>handleFiles_file := ?fp, zipFile := qfalse,
                      handleSync := qfalse, name := Q_strncpyz (MAX_ZPATH w) q\<rparr>)"
      "streams w1 = (streams w)(?fp \<mapsto> ?s)"
      "files w1 = files w" "fs_searchpaths w1 = fs_searchpaths w" "schedule w1 = schedule w"
    by (auto simp only: FS_BuildOSPath_gamedir)
  have op: "FS_FOpenFileRead w q = (Inr (int (length b), f), w1)"
    using assms(4,5) init
    by (simp add: FS_FOpenFileRead_def strstr_None_iff assms(1) walk_skips_packs [OF assms(2)] walk
        del: FS_FOpenFileRead_walk.simps)
  let ?w1 = "w1\<lparr>fs_loadStack := fs_loadStack w1 + 1\<rparr>"
  have "\<exists>w'. FS_Read_loop ?w1 f (length b) (length b) False [] =
            (Inr (int (length b), [] @ take (length b) (drop (f_pos ?s) (file_data ?w1 (f_path ?s)))), w')
          \<and> fsh w' = fsh ?w1 \<and> files w' = files ?w1 \<and> fs_searchpaths w' = fs_searchpaths ?w1
          \<and> archives w' = archives ?w1
          \<and> streams w' = (streams ?w1)(handleFiles_file (fsh ?w1 f) \<mapsto> ?s\<lparr>f_pos := f_pos ?s + length b\<rparr>)"
  proof (rule FS_Read_loop_complete)
    show "streams ?w1 (handleFiles_file (fsh ?w1 f)) = Some ?s"
      by (simp add: w1)
    show "Fail \<notin> set (schedule ?w1)"
      by (simp add: w1 assms(8))
    show "if False then Deliver 0 \<notin> set (schedule ?w1)
          else count_list (schedule ?w1) (Deliver 0) \<le> 1"
      by (simp add: w1 assms(8))
    show "f_pos ?s + length b \<le> length (file_data ?w1 (f_path ?s))"
      by (simp add: file_data_def w1 assms(7))
  qed
  then obtain w2 where
    rd: "FS_Read_loop ?w1 f (length b) (length b) False [] = (Inr (int (length b), b), w2)"
    and w2: "fsh w2 = fsh w1" "files w2 = files w"
      "streams w2 = (streams w)(?fp \<mapsto> ?s\<lparr>f_pos := length b\<rparr>)"
    by (auto simp: file_data_def w1 assms(7))
  have read: "FS_Read ?w1 (length b) f = (Inr (int (length b), b), w2)"
    using init r by (simp add: FS_Read_def w1 rd)
  have "FS_ReadFile w (Some q) True =
      (Inr (int (length b), Some (map Some b @ [Some 0])), snd (FS_FCloseFile w2 f))"
    using assms(3) r by (simp add: FS_ReadFile_def op read)
  moreover have "\<not> zipFile (fsh w2 f)" "handleFiles_file (fsh w2 f) = ?fp"
    by (simp_all add: w2 w1)
  from FS_FCloseFile_plain [OF this]
  have "fsh (snd (FS_FCloseFile w2 f)) = (fsh w)(f := empty_slot)"
    "streams (snd (FS_FCloseFile w2 f)) = (streams w)(?fp := None)"
    "files (snd (FS_FCloseFile w2 f)) = files w"
    by (simp_all add: w2 w1)
  ultimately show ?thesis by blast
qed

lemma FS_ReadFile_not_found:
  assumes "n \<noteq> []" and "fst (FS_FOpenFileRead v n) = Inr (len, 0)"
  shows "fst (FS_ReadFile v (Some n) want) = Inr (-1, None)"
proof (cases "FS_FOpenFileRead v n")
  case (Pair r w1)
  with assms show ?thesis by (simp add: FS_ReadFile_def)
qed

text \<open>The example configuration with the pack, and the names used on it.\<close>

lemma mounted_world_simps:
  "fs_homepath mounted_world = ''/home/user''" "fs_gamedir mounted_world = ''main''"
  "fs_searchpaths mounted_world =
       [\<lparr>pack = Some \<lparr>pakGamename = ''main'', pakBasename = ''iw_00'', pak_handle = 7\<rparr>, dir = None\<rparr>,
        \<lparr>pack = None, dir = Some \<lparr>dir_path = ''/home/user'', dir_gamedir = ''main''\<rparr>\<rparr>]"
  "archives mounted_world = [7 \<mapsto> \<lparr>z_entries = [(1234, ''sound/explosion.wav'', [1, 2, 3])],
                            z_offset = 0, z_current = None\<rparr>]"
  "schedule mounted_world = []" "writable mounted_world = (\<lambda>_. True)"
  "files mounted_world = Map.empty" "MAX_OSPATH mounted_world = 256"
  "fsh mounted_world = (\<lambda>_. empty_slot)" "MAX_FILE_HANDLES mounted_world = 64"
  "MAX_ZPATH mounted_world = 256" "next_ptr mounted_world = 0" "streams mounted_world = Map.empty"
  "fs_debug mounted_world = False" "trace mounted_world = []" "fs_loadStack mounted_world = 0"
  by (simp_all add: mounted_world_def example_world_def)

lemma mounted_world_handle: "FS_HandleForFile mounted_world = Inr 1"
  by (rule FS_HandleForFile_first [of 1 mounted_world, simplified])
    (simp_all add: mounted_world_simps empty_slot_def)

lemma mounted_world_path:
  "FS_BuildOSPath mounted_world ''/home/user'' [] ''save.dat'' = ''/home/user/main/save.dat''"
  "FS_BuildOSPath mounted_world ''/home/user'' ''main'' ''missing.dat'' = ''/home/user/main/missing.dat''"
  "FS_BuildOSPath mounted_world ''/home/user'' [] ''sound/explosion.wav'' = ''/home/user/main/sound/explosion.wav''"
  by (simp_all add: FS_BuildOSPath_def mounted_world_simps Com_sprintf_def FS_ReplaceSeparators_def PATH_SEP_def)

lemma sample_names_safe:
  "\<not> sublist ''..'' ''save.dat''" "\<not> sublist ''::'' ''save.dat''"
  "\<not> sublist ''..'' ''/home/user/main/save.dat''" "\<not> sublist ''::'' ''/home/user/main/save.dat''"
  "\<not> sublist ''..'' ''missing.dat''" "\<not> sublist ''::'' ''missing.dat''"
  by (simp_all add: strstr_None_iff [symmetric])

lemma sample_pack_lacks:
  "pack_lacks mounted_world ''save.dat''
     \<lparr>pack = Some \<lparr>pakGamename = ''main'', pakBasename = ''iw_00'', pak_handle = 7\<rparr>, dir = None\<rparr>"
  "pack_lacks mounted_world ''missing.dat''
     \<lparr>pack = Some \<lparr>pakGamename = ''main'', pakBasename = ''iw_00'', pak_handle = 7\<rparr>, dir = None\<rparr>"
  by (simp_all add: pack_lacks_def mounted_world_simps path_char_def upcase_def c_char_def)

lemma mounted_world_missing: "fst (FS_FOpenFileRead mounted_world ''missing.dat'') = Inr (-1, 0)"
proof -
  have "FS_FOpenFileRead mounted_world ''missing.dat'' =
      FS_FOpenFileRead_walk mounted_world
        ([\<lparr>pack = Some \<lparr>pakGamename = ''main'', pakBasename = ''iw_00'', pak_handle = 7\<rparr>, dir = None\<rparr>]
         @ [\<lparr>pack = None, dir = Some \<lparr>dir_path = ''/home/user'', dir_gamedir = ''main''\<rparr>\<rparr>])
        ''missing.dat''"
    using sample_names_safe
    by (simp add: FS_FOpenFileRead_def mounted_world_simps strstr_None_iff
        del: FS_FOpenFileRead_walk.simps)
  also have "\<dots> = FS_FOpenFileRead_walk mounted_world
        [\<lparr>pack = None, dir = Some \<lparr>dir_path = ''/home/user'', dir_gamedir = ''main''\<rparr>\<rparr>] ''missing.dat''"
    by (rule walk_skips_packs) (simp add: sample_pack_lacks)
  finally show ?thesis
    by (simp add: mounted_world_path native_fopen_def mounted_world_simps Let_def)
qed

lemma FS_WriteFile_refused:
  assumes "fs_searchpaths w \<noteq> []" and "FS_HandleForFile w = Inr f"
    and "sublist ''..'' (FS_BuildOSPath w (fs_homepath w) [] q)
       \<or> sublist ''::'' (FS_BuildOSPath w (fs_homepath w) [] q)"
  shows "\<exists>w'. FS_WriteFile w (Some q) (Some b) = (Inr (), w')
      \<and> files w' = files w \<and> fs_searchpaths w' = fs_searchpaths w
      \<and> last (trace w') = Com_Printf ''Failed to open'' [q]"
proof -
  let ?w1 = "set_slot f (\<lambda>s. s\<lparr>zipFile := qfalse\<rparr>) w"
  have p1: "FS_BuildOSPath ?w1 (fs_homepath ?w1) [] q = FS_BuildOSPath w (fs_homepath w) [] q"
    by (simp add: set_slot_def)
  have "FS_FOpenFileWrite w q =
      (Inr 0, emit (Com_Printf ''WARNING: refusing to create relative path''
                  [FS_BuildOSPath w (fs_homepath w) [] q]) ?w1)"
    using assms(1,2)
    by (simp add: FS_FOpenFileWrite_def Let_def p1 FS_CreatePath_refuses [OF assms(3)])
  with assms(1) show ?thesis
    by (simp add: FS_WriteFile_def emit_def set_slot_def)
qed

lemma FS_ReadFile_unsafe_name:
  assumes "fs_searchpaths w \<noteq> []" and "q \<noteq> []" and "sublist ''..'' q \<or> sublist ''::'' q"
  shows "FS_ReadFile w (Some q) want = (Inr (-1, None), w)"
  using assms by (simp add: FS_ReadFile_def FS_FOpenFileRead_def sublist_strstr)

lemma mounted_world_unsafe_path:
  "FS_BuildOSPath mounted_world ''/home/user'' [] ''../x'' = ''/home/user/main/../x''"
  by (simp add: FS_BuildOSPath_def mounted_world_simps Com_sprintf_def FS_ReplaceSeparators_def PATH_SEP_def)

lemma sample_names_dots:
  "sublist ''..'' ''../x''" "sublist ''..'' ''/home/user/main/../x''"
  "\<not> sublist ''..'' ''sound/explosion.wav''" "\<not> sublist ''::'' ''sound/explosion.wav''"
  "\<not> sublist ''..'' ''/home/user/main/sound/explosion.wav''"
  "\<not> sublist ''::'' ''/home/user/main/sound/explosion.wav''"
  by (simp_all add: sublist_strstr)

lemma FS_FilenameCompare_sample: "FS_FilenameCompare ''sound/explosion.wav'' ''sound/explosion.wav'' = 0"
  by (simp add: path_char_def upcase_def c_char_def)




subsection \<open>C8: the range check of FS_FileForHandle\<close>

text \<open>
  C8, at the failing input.  The handle \<^verbatim>\<open>MAX_FILE_HANDLES\<close> is not an index of the
  table, yet the range check lets it pass (it compares with \<^verbatim>\<open>>\<close>), and the function
  answers with whatever the memory behind the table holds in the place of a stream:
  here the pointer 4919, and no error.
\<close>

theorem FS_FileForHandle_past_the_table:
  "FS_FileForHandle
     (example_world\<lparr>fsh := (\<lambda>i. if i = 64 then empty_slot\<lparr>handleFiles_file := 4919\<rparr> else empty_slot)\<rparr>)
     64 = Inr 4919"
  by (simp add: FS_FileForHandle_def example_world_def empty_slot_def)



subsection \<open>C9: calls before initialisation\<close>

text \<open>
  C9, as amended.  While the search path list is unset, the server-local opens for
  writing, reading and appending, \<^verbatim>\<open>FS_Read\<close>, \<^verbatim>\<open>FS_Write\<close>, \<^verbatim>\<open>FS_Seek\<close> and
  \<^verbatim>\<open>FS_WriteFile\<close> raise the fatal error "Filesystem call made without initialization"
  and leave the world as it was: no call has left the process.  \<^verbatim>\<open>FS_FTell\<close> and
  \<^verbatim>\<open>FS_Flush\<close> make no such check: initialised or not, they hand the slot's stream
  pointer to \<^verbatim>\<open>ftell\<close> and \<^verbatim>\<open>fflush\<close>.  \<^verbatim>\<open>FS_ReadFile\<close> has no check of its own
  either: its first test is for an empty name, which is another fatal error, and the
  rest is left to the open for reading that it calls.
\<close>

theorem uninitialized_use:
  assumes "fs_searchpaths w = []"
  shows "FS_SV_FOpenFileWrite w filename = (Inl not_initialized, w)
       \<and> FS_SV_FOpenFileRead w filename = (Inl not_initialized, w)
       \<and> FS_SV_FOpenFileAppend w filename = (Inl not_initialized, w)
       \<and> FS_Read w len f = (Inl not_initialized, w)
       \<and> FS_Write w buffer f = (Inl not_initialized, w)
       \<and> FS_Seek w f offset origin = (Inl not_initialized, w)
       \<and> FS_WriteFile w qpath wbuffer = (Inl not_initialized, w)
       \<and> trace (snd (FS_FTell w f)) = trace w @ [Call_ftell (handleFiles_file (fsh w f))]
       \<and> trace (FS_Flush w f) = trace w @ [Call_fflush (handleFiles_file (fsh w f))]
       \<and> FS_ReadFile w (Some []) want = (Inl (Com_Error ERR_FATAL ''FS_ReadFile with empty name''), w)"
  using assms
  by (simp add: FS_SV_FOpenFileWrite_def FS_SV_FOpenFileRead_def FS_SV_FOpenFileAppend_def
      FS_Read_def FS_Write_def FS_Seek_def FS_WriteFile_def FS_ReadFile_def
      FS_FTell_def FS_Flush_def native_ftell_def native_fflush_def emit_def split: option.splits)

text \<open>C9, witness: the theorem in the example configuration before initialisation.\<close>

theorem uninitialized_use_witness:
  "FS_SV_FOpenFileWrite uninitialized_world ''save.dat'' = (Inl not_initialized, uninitialized_world)
   \<and> FS_SV_FOpenFileRead uninitialized_world ''save.dat'' = (Inl not_initialized, uninitialized_world)
   \<and> FS_SV_FOpenFileAppend uninitialized_world ''save.dat'' = (Inl not_initialized, uninitialized_world)
   \<and> FS_Read uninitialized_world 16 1 = (Inl not_initialized, uninitialized_world)
   \<and> FS_Write uninitialized_world [1, 2] 1 = (Inl not_initialized, uninitialized_world)
   \<and> FS_Seek uninitialized_world 1 0 FS_SEEK_SET = (Inl not_initialized, uninitialized_world)
   \<and> FS_WriteFile uninitialized_world (Some ''save.dat'') (Some [1, 2]) =
        (Inl not_initialized, uninitialized_world)
   \<and> trace (snd (FS_FTell uninitialized_world 1)) = [Call_ftell 0]
   \<and> trace (FS_Flush uninitialized_world 1) = [Call_fflush 0]"
  using uninitialized_use [of uninitialized_world "''save.dat''" 16 1 "[1, 2]" 0 FS_SEEK_SET
      "Some ''save.dat''" "Some [1, 2]" True]
  by (simp add: uninitialized_world_def example_world_def empty_slot_def)

text \<open>
  C9, counterexample.  Before initialisation \<^verbatim>\<open>FS_FTell\<close> and \<^verbatim>\<open>FS_Flush\<close> do not raise
  the error of uninitialised use: each makes its native call, on the null pointer that
  the empty slot holds.
\<close>

theorem uninitialized_use_counterexample:
  "fs_searchpaths uninitialized_world = []
   \<and> fst (FS_FTell uninitialized_world 1) \<noteq> Inl not_initialized
   \<and> trace (snd (FS_FTell uninitialized_world 1)) = [Call_ftell 0]
   \<and> trace (FS_Flush uninitialized_world 1) = [Call_fflush 0]"
  by (simp add: uninitialized_world_def example_world_def empty_slot_def FS_FTell_def FS_Flush_def
      native_ftell_def native_fflush_def emit_def not_initialized_def)

subsection \<open>C10: the server-local calls do not sanitize\<close>

lemma FS_ReplaceSeparators_dotdot:
  assumes "sublist ''..'' filename"
  shows "sublist ''..'' (FS_ReplaceSeparators filename)"
proof -
  from assms obtain a b where "filename = a @ ''..'' @ b"
    by (auto simp: sublist_def)
  then have "FS_ReplaceSeparators filename =
      FS_ReplaceSeparators a @ ''..'' @ FS_ReplaceSeparators b"
    by (simp add: FS_ReplaceSeparators_def)
  then show ?thesis
    unfolding sublist_def by blast
qed

lemma server_local_path:
  assumes "filename \<noteq> []" and "length base + length filename + 2 < MAX_OSPATH w"
  shows "butlast (FS_BuildOSPath w base filename []) = base @ ''/'' @ FS_ReplaceSeparators filename"
  using assms
  by (simp add: FS_BuildOSPath_def Com_sprintf_def FS_ReplaceSeparators_def PATH_SEP_def butlast_append)

lemma FS_SV_HomeRemove_call:
  "fst (FS_SV_HomeRemove w path) = (files w (butlast (FS_BuildOSPath w (fs_homepath w) path [])) \<noteq> None)
   \<and> trace (snd (FS_SV_HomeRemove w path)) =
        trace w @ [Call_remove (butlast (FS_BuildOSPath w (fs_homepath w) path []))]
   \<and> files (snd (FS_SV_HomeRemove w path)) =
        (files w)(butlast (FS_BuildOSPath w (fs_homepath w) path []) := None)"
  by (auto simp: FS_SV_HomeRemove_def Let_def native_remove_def emit_def fun_eq_iff)

lemma FS_SV_FOpenFileRead_home:
  assumes init: "fs_searchpaths w \<noteq> []"
    and h: "FS_HandleForFile w = Inr j"
    and ex: "files w (butlast (FS_BuildOSPath w (fs_homepath w) filename [])) = Some d"
  shows "fst (FS_SV_FOpenFileRead w filename) = Inr (int (length d), j)
       \<and> trace (snd (FS_SV_FOpenFileRead w filename)) =
           trace w
           @ (if fs_debug w
              then [Com_Printf ''FS_SV_FOpenFileRead (fs_homepath):''
                      [butlast (FS_BuildOSPath w (fs_homepath w) filename [])]]
              else [])
           @ [Call_fopen (butlast (FS_BuildOSPath w (fs_homepath w) filename [])) ''rb'',
              Call_ftell (Suc (next_ptr w)), Call_fseek (Suc (next_ptr w)) 0 FS_SEEK_END,
              Call_ftell (Suc (next_ptr w)), Call_fseek (Suc (next_ptr w)) 0 FS_SEEK_SET]"
proof -
  from FS_HandleForFile_range [OF h] have r: "1 \<le> j" "j < int (MAX_FILE_HANDLES w)" by auto
  show ?thesis
    using init h ex r
    by (simp add: FS_SV_FOpenFileRead_def Let_def set_slot_def emit_def
        native_fopen_def new_stream_def FS_filelength_def FS_FileForHandle_def native_ftell_def
        native_fseek_def file_data_def split: prod.splits)
qed

lemma FS_SV_FOpenFileRead_base:
  assumes init: "fs_searchpaths w \<noteq> []"
    and h: "FS_HandleForFile w = Inr j"
    and miss: "files w (butlast (FS_BuildOSPath w (fs_homepath w) filename [])) = None"
    and differ: "Q_stricmp (fs_homepath w) (fs_basepath w) \<noteq> 0"
    and ex: "files w (butlast (FS_BuildOSPath w (fs_basepath w) filename [])) = Some d"
  shows "fst (FS_SV_FOpenFileRead w filename) = Inr (int (length d), j)
       \<and> trace (snd (FS_SV_FOpenFileRead w filename)) =
           trace w
           @ (if fs_debug w
              then [Com_Printf ''FS_SV_FOpenFileRead (fs_homepath):''
                      [butlast (FS_BuildOSPath w (fs_homepath w) filename [])]]
              else [])
           @ [Call_fopen (butlast (FS_BuildOSPath w (fs_homepath w) filename [])) ''rb'']
           @ (if fs_debug w
              then [Com_Printf ''FS_SV_FOpenFileRead (fs_basepath):''
                      [butlast (FS_BuildOSPath w (fs_basepath w) filename [])]]
              else [])
           @ [Call_fopen (butlast (FS_BuildOSPath w (fs_basepath w) filename [])) ''rb'',
              Call_ftell (Suc (next_ptr w)), Call_fseek (Suc (next_ptr w)) 0 FS_SEEK_END,
              Call_ftell (Suc (next_ptr w)), Call_fseek (Suc (next_ptr w)) 0 FS_SEEK_SET]"
proof -
  from FS_HandleForFile_range [OF h] have r: "1 \<le> j" "j < int (MAX_FILE_HANDLES w)" by auto
  show ?thesis
    using init h ex r miss differ
    by (simp add: FS_SV_FOpenFileRead_def Let_def set_slot_def emit_def
        native_fopen_def new_stream_def FS_filelength_def FS_FileForHandle_def native_ftell_def
        native_fseek_def file_data_def split: prod.splits)
qed

text \<open>
  C10.  Take a file name that contains \<^verbatim>\<open>..\<close> (not empty, and short enough for the path
  buffers).  The OS path that \<^verbatim>\<open>FS_SV_HomeRemove\<close> and \<^verbatim>\<open>FS_SV_FOpenFileRead\<close> build
  is the home path (for the read also the base path), a separator, and the name with
  its separators unified: the \<^verbatim>\<open>..\<close> is still in it.  No test rejects it:
  \<^verbatim>\<open>FS_SV_HomeRemove\<close> calls \<^verbatim>\<open>remove\<close> on this path and removes the file it names;
  \<^verbatim>\<open>FS_SV_FOpenFileRead\<close> calls \<^verbatim>\<open>fopen\<close> on it and, when the file is there, answers
  a handle on it and its length; when it is not there and the base path differs from
  the home path, the same happens under the base path.
\<close>

theorem server_local_calls_keep_dotdot:
  assumes "filename \<noteq> []" and "sublist ''..'' filename"
    and "length (fs_homepath w) + length filename + 2 < MAX_OSPATH w"
    and "length (fs_basepath w) + length filename + 2 < MAX_OSPATH w"
  shows
    "(let home_file = fs_homepath w @ ''/'' @ FS_ReplaceSeparators filename;
          base_file = fs_basepath w @ ''/'' @ FS_ReplaceSeparators filename;
          opened = [Call_ftell (Suc (next_ptr w)), Call_fseek (Suc (next_ptr w)) 0 FS_SEEK_END,
                    Call_ftell (Suc (next_ptr w)), Call_fseek (Suc (next_ptr w)) 0 FS_SEEK_SET]
      in sublist ''..'' (FS_ReplaceSeparators filename)
       \<and> fst (FS_SV_HomeRemove w filename) = (files w home_file \<noteq> None)
       \<and> trace (snd (FS_SV_HomeRemove w filename)) = trace w @ [Call_remove home_file]
       \<and> files (snd (FS_SV_HomeRemove w filename)) = (files w)(home_file := None)
       \<and> (fs_searchpaths w \<noteq> [] \<and> FS_HandleForFile w = Inr f \<and> files w home_file = Some d \<longrightarrow>
            fst (FS_SV_FOpenFileRead w filename) = Inr (int (length d), f)
            \<and> trace (snd (FS_SV_FOpenFileRead w filename)) =
                trace w
                @ (if fs_debug w then [Com_Printf ''FS_SV_FOpenFileRead (fs_homepath):'' [home_file]] else [])
                @ [Call_fopen home_file ''rb''] @ opened)
       \<and> (fs_searchpaths w \<noteq> [] \<and> FS_HandleForFile w = Inr f \<and> files w home_file = None
            \<and> Q_stricmp (fs_homepath w) (fs_basepath w) \<noteq> 0 \<and> files w base_file = Some d \<longrightarrow>
            fst (FS_SV_FOpenFileRead w filename) = Inr (int (length d), f)
            \<and> trace (snd (FS_SV_FOpenFileRead w filename)) =
                trace w
                @ (if fs_debug w then [Com_Printf ''FS_SV_FOpenFileRead (fs_homepath):'' [home_file]] else [])
                @ [Call_fopen home_file ''rb'']
                @ (if fs_debug w then [Com_Printf ''FS_SV_FOpenFileRead (fs_basepath):'' [base_file]] else [])
                @ [Call_fopen base_file ''rb''] @ opened))"
proof -
  have hp: "butlast (FS_BuildOSPath w (fs_homepath w) filename []) =
      fs_homepath w @ ''/'' @ FS_ReplaceSeparators filename"
    using assms by (intro server_local_path) simp_all
  have bp: "butlast (FS_BuildOSPath w (fs_basepath w) filename []) =
      fs_basepath w @ ''/'' @ FS_ReplaceSeparators filename"
    using assms by (intro server_local_path) simp_all
  show ?thesis
    unfolding Let_def
    using FS_ReplaceSeparators_dotdot [OF assms(2)] FS_SV_HomeRemove_call [of w filename]
      FS_SV_FOpenFileRead_home [of w f filename d] FS_SV_FOpenFileRead_base [of w f filename d]
    by (simp add: hp bp)
qed

text \<open>
  C10, witness: with the home path \<^verbatim>\<open>/home/user\<close> and the base path \<^verbatim>\<open>/opt/cod4\<close>, the
  name \<^verbatim>\<open>../secret.cfg\<close> removes and opens \<^verbatim>\<open>/home/user/../secret.cfg\<close>, and the name
  \<^verbatim>\<open>../other.cfg\<close> opens \<^verbatim>\<open>/opt/cod4/../other.cfg\<close>.
\<close>

theorem server_local_calls_keep_dotdot_witness:
  "fst (FS_SV_HomeRemove outside_world ''../secret.cfg'') = True
   \<and> trace (snd (FS_SV_HomeRemove outside_world ''../secret.cfg'')) =
        [Call_remove ''/home/user/../secret.cfg'']
   \<and> files (snd (FS_SV_HomeRemove outside_world ''../secret.cfg'')) ''/home/user/../secret.cfg'' = None
   \<and> fst (FS_SV_FOpenFileRead outside_world ''../secret.cfg'') = Inr (3, 1)
   \<and> trace (snd (FS_SV_FOpenFileRead outside_world ''../secret.cfg'')) =
        [Call_fopen ''/home/user/../secret.cfg'' ''rb'', Call_ftell 1, Call_fseek 1 0 FS_SEEK_END,
         Call_ftell 1, Call_fseek 1 0 FS_SEEK_SET]
   \<and> fst (FS_SV_FOpenFileRead outside_world ''../other.cfg'') = Inr (1, 1)
   \<and> trace (snd (FS_SV_FOpenFileRead outside_world ''../other.cfg'')) =
        [Call_fopen ''/home/user/../other.cfg'' ''rb'', Call_fopen ''/opt/cod4/../other.cfg'' ''rb'',
         Call_ftell 1, Call_fseek 1 0 FS_SEEK_END, Call_ftell 1, Call_fseek 1 0 FS_SEEK_SET]"
proof -
  have h: "FS_HandleForFile outside_world = Inr 1"
    by (rule FS_HandleForFile_first [of 1 outside_world, simplified])
      (simp_all add: outside_world_def example_world_def empty_slot_def)
  have s: "sublist ''..'' ''../secret.cfg''" "sublist ''..'' ''../other.cfg''"
    by (simp_all add: sublist_strstr)
  have q: "Q_stricmp (fs_homepath outside_world) (fs_basepath outside_world) \<noteq> 0"
    by (simp add: outside_world_def example_world_def Q_stricmp_def upcase_def c_char_def cmp_result_def)
  from server_local_calls_keep_dotdot [of "''../secret.cfg''" outside_world 1 "[1, 2, 3]"]
    server_local_calls_keep_dotdot [of "''../other.cfg''" outside_world 1 "[9]"]
    h s q
  show ?thesis
    by (simp add: outside_world_def example_world_def Let_def FS_ReplaceSeparators_def PATH_SEP_def)
qed


end
